(* ===== verification/Tracy_Prelude.thy ===== *)
theory Tracy_Prelude
  imports Main "HOL-Library.Word"
begin

text \<open>
  Shared vocabulary of the development: the Rust integer types as words, byte strings, the
  outcome of a Rust computation that may return, panic or keep looping, and the lemmas on them
  that every component uses. \<open>outcome_simps\<close> and \<open>frame_simps\<close> collect the
  rewrite rules for sequencing and for what an operation leaves unchanged.
\<close>

named_theorems outcome_simps \<open>rules for sequencing outcomes\<close>
named_theorems frame_simps \<open>fields an operation leaves unchanged\<close>

section \<open>Machine types\<close>

type_synonym u8 = "8 word"
type_synonym u16 = "16 word"
type_synonym u32 = "32 word"
type_synonym u64 = "64 word"
type_synonym usize = "64 word"
type_synonym bytes = "u8 list"

text \<open>A Rust \<^verbatim>\<open>String\<close> is the list of its UTF-8 bytes.\<close>

type_synonym rstring = "u8 list"

definition bytes_of :: "string \<Rightarrow> bytes" where
  "bytes_of s = map of_char s"

section \<open>Outcomes\<close>

text \<open>
  \<open>Ret\<close> is a normal return. \<open>Panic\<close> names the failing \<^verbatim>\<open>unwrap\<close> or \<^verbatim>\<open>expect\<close>; it ends the
  thread. \<open>Spin\<close> is the result of a loop that used up its fuel without leaving.
  \<open>Undefined\<close> is the dereference of a NULL pointer in an \<^verbatim>\<open>unsafe\<close> block.
\<close>

datatype panic =
    ConnectionIsNone
  | TryCloneFailed
  | RegisterFailed
  | PollFailed
  | BindFailed
  | LocalAddrFailed
  | AnnounceAddrIsNone
  | HostnameBroken
  | ProcessNameBroken
  | BufferIsEmpty

datatype 'a outcome = Ret 'a | Panic panic | Spin | Undefined

fun obind :: "'a outcome \<Rightarrow> ('a \<Rightarrow> 'b outcome) \<Rightarrow> 'b outcome" where
  "obind (Ret x) f = f x"
| "obind (Panic p) f = Panic p"
| "obind Spin f = Spin"
| "obind Undefined f = Undefined"

lemma obind_eq_Ret [outcome_simps]: "obind m f = Ret y \<longleftrightarrow> (\<exists>x. m = Ret x \<and> f x = Ret y)"
  by (cases m) auto

lemma obind_eq_Panic [outcome_simps]:
  "obind m f = Panic p \<longleftrightarrow> m = Panic p \<or> (\<exists>x. m = Ret x \<and> f x = Panic p)"
  by (cases m) auto

lemma obind_eq_Spin [outcome_simps]:
  "obind m f = Spin \<longleftrightarrow> m = Spin \<or> (\<exists>x. m = Ret x \<and> f x = Spin)"
  by (cases m) auto

lemma obind_eq_Undefined [outcome_simps]:
  "obind m f = Undefined \<longleftrightarrow> m = Undefined \<or> (\<exists>x. m = Ret x \<and> f x = Undefined)"
  by (cases m) auto

lemma obind_cong [fundef_cong]:
  "m = m' \<Longrightarrow> (\<And>x. m' = Ret x \<Longrightarrow> f x = g x) \<Longrightarrow> obind m f = obind m' g"
  by (cases m') auto

lemma obind_assoc: "obind (obind m f) g = obind m (\<lambda>x. obind (f x) g)"
  by (cases m) auto

text \<open>\<open>unwrap p x\<close> is \<^verbatim>\<open>x.unwrap()\<close> or \<^verbatim>\<open>x.expect(..)\<close>.\<close>

definition unwrap :: "panic \<Rightarrow> 'a option \<Rightarrow> 'a outcome" where
  "unwrap p x = (case x of Some y \<Rightarrow> Ret y | None \<Rightarrow> Panic p)"

lemma unwrap_simps [simp]: "unwrap p (Some y) = Ret y" "unwrap p None = Panic p"
  by (simp_all add: unwrap_def)

lemma unwrap_eq_Ret [outcome_simps]: "unwrap p x = Ret y \<longleftrightarrow> x = Some y"
  by (cases x) auto

section \<open>Lists and words\<close>

lemma set_fold_update:
  "fold (\<lambda>a m. m(a := v)) as m x = (if x \<in> set as then v else m x)"
  by (induction as arbitrary: m) auto

lemma unat_lt_width: "unat (x :: 'a::len word) < 2 ^ LENGTH('a)"
  by (rule unsigned_less)

lemma unat_of_nat_less: "n < 2 ^ LENGTH('a::len) \<Longrightarrow> unat (of_nat n :: 'a word) = n"
  by (simp add: unat_of_nat)

end
