(* ===== verification/Wire_Bytes.thy ===== *)
theory Wire_Bytes
  imports Tracy_Prelude
begin

text \<open>
  Big-endian integers (\<^verbatim>\<open>to_be_bytes\<close> and \<^verbatim>\<open>from_be_bytes\<close> of \<^verbatim>\<open>u16\<close>, \<^verbatim>\<open>u32\<close>,
  \<^verbatim>\<open>u64\<close>) and the interface of a record codec: an encoder, and a decoder that peels one
  encoded record off a byte string. What is proved of every codec is that decoding a
  concatenation of encoded records gives the records back.
\<close>

section \<open>Big-endian integers\<close>

primrec be_bytes :: "nat \<Rightarrow> nat \<Rightarrow> bytes" where
  "be_bytes 0 n = []"
| "be_bytes (Suc k) n = be_bytes k (n div 256) @ [of_nat n]"

definition be_value :: "bytes \<Rightarrow> nat" where
  "be_value bs = foldl (\<lambda>acc b. acc * 256 + unat b) 0 bs"

definition u16_to_be_bytes :: "u16 \<Rightarrow> bytes" where
  "u16_to_be_bytes x = be_bytes 2 (unat x)"

definition u32_to_be_bytes :: "u32 \<Rightarrow> bytes" where
  "u32_to_be_bytes x = be_bytes 4 (unat x)"

definition u64_to_be_bytes :: "u64 \<Rightarrow> bytes" where
  "u64_to_be_bytes x = be_bytes 8 (unat x)"

definition u16_from_be_bytes :: "bytes \<Rightarrow> u16" where
  "u16_from_be_bytes bs = of_nat (be_value bs)"

definition u32_from_be_bytes :: "bytes \<Rightarrow> u32" where
  "u32_from_be_bytes bs = of_nat (be_value bs)"

definition u64_from_be_bytes :: "bytes \<Rightarrow> u64" where
  "u64_from_be_bytes bs = of_nat (be_value bs)"

lemma be_value_Nil [simp]: "be_value [] = 0"
  by (simp add: be_value_def)

lemma be_value_snoc: "be_value (bs @ [b]) = be_value bs * 256 + unat b"
  by (simp add: be_value_def)

lemma length_be_bytes [simp]: "length (be_bytes k n) = k"
  by (induction k arbitrary: n) simp_all

lemma unat_byte_lt: "unat (b :: u8) < 256"
  using unat_lt_width [of b] by simp

lemma be_value_be_bytes: "be_value (be_bytes k n) = n mod 256 ^ k"
proof (induction k arbitrary: n)
  case 0
  show ?case by simp
next
  case (Suc k)
  have "be_value (be_bytes (Suc k) n) = (n div 256) mod 256 ^ k * 256 + n mod 256"
    by (simp add: be_value_snoc Suc.IH unat_of_nat)
  also have "\<dots> = n mod (256 * 256 ^ k)"
    by (simp add: mod_mult2_eq mult.commute)
  finally show ?case by simp
qed

lemma be_value_lt: "be_value bs < 256 ^ length bs"
proof (induction bs rule: rev_induct)
  case Nil
  show ?case by simp
next
  case (snoc b bs)
  have "be_value bs * 256 + unat b < (be_value bs + 1) * 256"
    using unat_byte_lt [of b] by simp
  also have "\<dots> \<le> 256 ^ length bs * 256"
    using snoc.IH by (intro mult_right_mono) simp_all
  finally show ?case by (simp add: be_value_snoc mult.commute)
qed

lemma be_bytes_be_value: "be_bytes (length bs) (be_value bs) = bs"
proof (induction bs rule: rev_induct)
  case Nil
  show ?case by simp
next
  case (snoc b bs)
  have "(be_value bs * 256 + unat b) div 256 = be_value bs"
    using unat_byte_lt [of b] by simp
  moreover have "(of_nat (be_value bs * 256 + unat b) :: u8) = b"
  proof -
    have "unat (of_nat (be_value bs * 256 + unat b) :: u8) = unat b"
      using unat_byte_lt [of b] by (simp add: unat_of_nat del: of_nat_add of_nat_mult)
    then show ?thesis by (simp only: word_unat_eq_iff)
  qed
  ultimately show ?case
    by (simp add: be_value_snoc snoc.IH del: of_nat_add of_nat_mult)
qed

lemma length_to_be_bytes [simp]:
  "length (u16_to_be_bytes x) = 2" "length (u32_to_be_bytes y) = 4" "length (u64_to_be_bytes z) = 8"
  by (simp_all add: u16_to_be_bytes_def u32_to_be_bytes_def u64_to_be_bytes_def)

lemma u16_from_to [simp]: "u16_from_be_bytes (u16_to_be_bytes x) = x"
  using unat_lt_width [of x]
  by (simp add: u16_from_be_bytes_def u16_to_be_bytes_def be_value_be_bytes)

lemma u32_from_to [simp]: "u32_from_be_bytes (u32_to_be_bytes x) = x"
  using unat_lt_width [of x]
  by (simp add: u32_from_be_bytes_def u32_to_be_bytes_def be_value_be_bytes)

lemma u64_from_to [simp]: "u64_from_be_bytes (u64_to_be_bytes x) = x"
  using unat_lt_width [of x]
  by (simp add: u64_from_be_bytes_def u64_to_be_bytes_def be_value_be_bytes)

lemma u16_to_from: "length bs = 2 \<Longrightarrow> u16_to_be_bytes (u16_from_be_bytes bs) = bs"
  using be_value_lt [of bs] be_bytes_be_value [of bs]
  by (simp add: u16_from_be_bytes_def u16_to_be_bytes_def unat_of_nat)

lemma u32_to_from: "length bs = 4 \<Longrightarrow> u32_to_be_bytes (u32_from_be_bytes bs) = bs"
  using be_value_lt [of bs] be_bytes_be_value [of bs]
  by (simp add: u32_from_be_bytes_def u32_to_be_bytes_def unat_of_nat)

lemma u16_from_be_bytes_eq_iff:
  "length bs = 2 \<Longrightarrow> u16_from_be_bytes bs = x \<longleftrightarrow> bs = u16_to_be_bytes x"
  using u16_to_from [of bs] by auto

text \<open>The bytes of concrete numbers.\<close>

lemma be_bytes_2: "be_bytes 2 n = [of_nat (n div 256), of_nat n]"
proof -
  have "(2 :: nat) = Suc (Suc 0)" by simp
  then show ?thesis by (simp only: be_bytes.simps append.simps)
qed

lemma be_bytes_4:
  "be_bytes 4 n =
     [of_nat (n div 256 div 256 div 256), of_nat (n div 256 div 256), of_nat (n div 256), of_nat n]"
proof -
  have "(4 :: nat) = Suc (Suc (Suc (Suc 0)))" by simp
  then show ?thesis by (simp only: be_bytes.simps append.simps)
qed

lemmas be_eval =
  u16_to_be_bytes_def u32_to_be_bytes_def u16_from_be_bytes_def u32_from_be_bytes_def
  be_value_def be_bytes_2 be_bytes_4

section \<open>Record codecs\<close>

text \<open>
  \<open>dec_all\<close> is the reader loop every client of the protocol runs: decode one record, go on
  with the rest, stop at the end of the message body. A decoder that consumes nothing is
  rejected, so the recursion ends.
\<close>

function dec_all :: "(bytes \<Rightarrow> ('a \<times> bytes) option) \<Rightarrow> bytes \<Rightarrow> 'a list option" where
  "dec_all dec bs =
     (if bs = [] then Some []
      else case dec bs of
          None \<Rightarrow> None
        | Some (x, rest) \<Rightarrow>
            (if length rest < length bs then map_option (Cons x) (dec_all dec rest) else None))"
  by pat_completeness auto
termination
  by (relation "measure (\<lambda>(dec, bs). length bs)") auto

declare dec_all.simps [simp del]

lemma dec_all_Nil [simp]: "dec_all dec [] = Some []"
  by (simp add: dec_all.simps)

locale record_codec =
  fixes enc :: "'a \<Rightarrow> bytes"
    and dec :: "bytes \<Rightarrow> ('a \<times> bytes) option"
    and ok :: "'a \<Rightarrow> bool"
  assumes dec_enc: "ok x \<Longrightarrow> dec (enc x @ rest) = Some (x, rest)"
    and enc_nonempty: "ok x \<Longrightarrow> enc x \<noteq> []"
begin

lemma dec_all_enc_append:
  assumes "ok x"
  shows "dec_all dec (enc x @ rest) = map_option (Cons x) (dec_all dec rest)"
  using dec_enc [OF assms, of rest] enc_nonempty [OF assms]
  by (subst dec_all.simps) simp

lemma dec_all_concat: "list_all ok xs \<Longrightarrow> dec_all dec (concat (map enc xs)) = Some xs"
  by (induction xs) (simp_all add: dec_all_enc_append)

lemma enc_inj: "ok x \<Longrightarrow> ok y \<Longrightarrow> enc x = enc y \<Longrightarrow> x = y"
  using dec_enc [of x "[]"] dec_enc [of y "[]"] by simp

lemma concat_enc_inj:
  "list_all ok xs \<Longrightarrow> list_all ok ys \<Longrightarrow> concat (map enc xs) = concat (map enc ys) \<Longrightarrow> xs = ys"
  by (metis dec_all_concat option.inject)

end

end
