(* ===== verification/Rust_Strings.thy ===== *)
theory Rust_Strings
  imports Tracy_Prelude
begin

text \<open>
  The string operations of the Rust standard library that the tracer uses, on strings as lists
  of UTF-8 bytes: \<^verbatim>\<open>CStr::from_ptr\<close>, \<^verbatim>\<open>std::str::from_utf8\<close>, \<^verbatim>\<open>to_string_lossy\<close>,
  \<^verbatim>\<open>is_ascii\<close> and \<^verbatim>\<open>to_lowercase\<close> (on ASCII input, the only input it gets here).
\<close>

section \<open>UTF-8\<close>

definition utf8_width :: "u8 \<Rightarrow> nat" where
  "utf8_width b =
     (if b < 0x80 then 1
      else if 0xC2 \<le> b \<and> b \<le> 0xDF then 2
      else if 0xE0 \<le> b \<and> b \<le> 0xEF then 3
      else if 0xF0 \<le> b \<and> b \<le> 0xF4 then 4
      else 0)"

definition utf8_cont :: "u8 \<Rightarrow> bool" where
  "utf8_cont c \<longleftrightarrow> 0x80 \<le> c \<and> c \<le> 0xBF"

definition utf8_second :: "u8 \<Rightarrow> u8 \<Rightarrow> bool" where
  "utf8_second b c =
     (if b = 0xE0 then 0xA0 \<le> c \<and> c \<le> 0xBF
      else if b = 0xED then 0x80 \<le> c \<and> c \<le> 0x9F
      else if b = 0xF0 then 0x90 \<le> c \<and> c \<le> 0xBF
      else if b = 0xF4 then 0x80 \<le> c \<and> c \<le> 0x8F
      else utf8_cont c)"

text \<open>
  One step of the validator on a non-empty input: whether the input starts with a well-formed
  character, and the length of that character, or of the longest ill-formed prefix that is
  replaced as one unit.
\<close>

fun utf8_step :: "bytes \<Rightarrow> bool \<times> nat" where
  "utf8_step [] = (False, 0)"
| "utf8_step (b # cs) =
     (if utf8_width b = 0 then (False, 1)
      else if utf8_width b = 1 then (True, 1)
      else case cs of
          [] \<Rightarrow> (False, 1)
        | c # ds \<Rightarrow>
            (if \<not> utf8_second b c then (False, 1)
             else if utf8_width b = 2 then (True, 2)
             else case ds of
                 [] \<Rightarrow> (False, 2)
               | d # es \<Rightarrow>
                   (if \<not> utf8_cont d then (False, 2)
                    else if utf8_width b = 3 then (True, 3)
                    else case es of
                        [] \<Rightarrow> (False, 3)
                      | e # fs \<Rightarrow> (if \<not> utf8_cont e then (False, 3) else (True, 4)))))"

lemma utf8_step_pos: "bs \<noteq> [] \<Longrightarrow> 0 < snd (utf8_step bs)"
  by (cases bs) (auto split: list.splits)

lemma utf8_step_le: "snd (utf8_step bs) \<le> length bs"
  by (cases bs) (auto split: list.splits)

function utf8_valid :: "bytes \<Rightarrow> bool" where
  "utf8_valid bs =
     (if bs = [] then True
      else fst (utf8_step bs) \<and> utf8_valid (drop (snd (utf8_step bs)) bs))"
  by pat_completeness auto
termination
  by (relation "measure length") (simp_all add: utf8_step_pos)

declare utf8_valid.simps [simp del]

lemma utf8_valid_Nil [simp]: "utf8_valid []"
  by (simp add: utf8_valid.simps)

definition from_utf8 :: "bytes \<Rightarrow> rstring option" where
  "from_utf8 bs = (if utf8_valid bs then Some bs else None)"

text \<open>U+FFFD, the replacement character.\<close>

definition replacement :: rstring where
  "replacement = [0xEF, 0xBF, 0xBD]"

function from_utf8_lossy :: "bytes \<Rightarrow> rstring" where
  "from_utf8_lossy bs =
     (if bs = [] then []
      else (if fst (utf8_step bs) then take (snd (utf8_step bs)) bs else replacement)
           @ from_utf8_lossy (drop (snd (utf8_step bs)) bs))"
  by pat_completeness auto
termination
  by (relation "measure length") (simp_all add: utf8_step_pos)

declare from_utf8_lossy.simps [simp del]

lemma from_utf8_lossy_Nil [simp]: "from_utf8_lossy [] = []"
  by (simp add: from_utf8_lossy.simps)

lemma from_utf8_lossy_valid: "utf8_valid bs \<Longrightarrow> from_utf8_lossy bs = bs"
proof (induction bs rule: from_utf8_lossy.induct)
  case (1 bs)
  show ?case
  proof (cases "bs = []")
    case False
    with "1.prems" have "fst (utf8_step bs)" "utf8_valid (drop (snd (utf8_step bs)) bs)"
      by (subst (asm) utf8_valid.simps, simp)+
    with "1.IH" False show ?thesis by (subst from_utf8_lossy.simps) simp
  qed simp
qed

section \<open>ASCII\<close>

definition is_ascii :: "bytes \<Rightarrow> bool" where
  "is_ascii s = list_all (\<lambda>b. b < 0x80) s"

definition ascii_lower :: "u8 \<Rightarrow> u8" where
  "ascii_lower b = (if 0x41 \<le> b \<and> b \<le> 0x5A then b + 0x20 else b)"

definition to_lowercase :: "rstring \<Rightarrow> rstring" where
  "to_lowercase s = map ascii_lower s"

lemma is_ascii_simps [simp]:
  "is_ascii []" "is_ascii (b # bs) \<longleftrightarrow> b < 0x80 \<and> is_ascii bs"
  "is_ascii (xs @ ys) \<longleftrightarrow> is_ascii xs \<and> is_ascii ys"
  by (simp_all add: is_ascii_def)

lemma is_ascii_take: "is_ascii s \<Longrightarrow> is_ascii (take n s)"
  by (auto simp: is_ascii_def list_all_iff dest: in_set_takeD)

lemma is_ascii_append_take_drop: "is_ascii bs \<longleftrightarrow> is_ascii (take n bs) \<and> is_ascii (drop n bs)"
  by (metis append_take_drop_id is_ascii_simps(3))

lemma utf8_step_ascii: "b < 0x80 \<Longrightarrow> utf8_step (b # bs) = (True, 1)"
  by (simp add: utf8_width_def)

lemma utf8_step_bad_not_ascii:
  assumes "\<not> fst (utf8_step bs)" and "bs \<noteq> []"
  shows "\<not> is_ascii (take (snd (utf8_step bs)) bs)"
proof -
  obtain b cs where bs: "bs = b # cs" using assms(2) by (cases bs) auto
  have "\<not> b < 0x80" using assms(1) by (auto simp: bs utf8_step_ascii simp del: utf8_step.simps)
  moreover obtain n where "snd (utf8_step bs) = Suc n"
    using utf8_step_pos [OF assms(2)] by (cases "snd (utf8_step bs)") auto
  ultimately show ?thesis by (simp add: bs del: utf8_step.simps)
qed

lemma is_ascii_valid: "is_ascii bs \<Longrightarrow> utf8_valid bs"
proof (induction bs)
  case (Cons b bs)
  then show ?case by (subst utf8_valid.simps) (simp add: utf8_step_ascii del: utf8_step.simps)
qed simp

lemma from_utf8_ascii: "is_ascii bs \<Longrightarrow> from_utf8 bs = Some bs"
  by (simp add: from_utf8_def is_ascii_valid)

lemma from_utf8_lossy_ascii: "is_ascii bs \<Longrightarrow> from_utf8_lossy bs = bs"
  by (simp add: from_utf8_lossy_valid is_ascii_valid)

lemma replacement_not_ascii [simp]: "\<not> is_ascii replacement"
  by (simp add: replacement_def)

lemma is_ascii_lossy_iff: "is_ascii (from_utf8_lossy bs) \<longleftrightarrow> is_ascii bs"
proof (induction bs rule: from_utf8_lossy.induct)
  case (1 bs)
  show ?case
  proof (cases "bs = []")
    case False
    let ?n = "snd (utf8_step bs)"
    have "is_ascii (from_utf8_lossy bs) \<longleftrightarrow>
        (if fst (utf8_step bs) then is_ascii (take ?n bs) else False) \<and> is_ascii (drop ?n bs)"
      using False "1.IH" by (subst from_utf8_lossy.simps) simp
    also have "\<dots> \<longleftrightarrow> is_ascii bs"
      using False utf8_step_bad_not_ascii [of bs] is_ascii_append_take_drop [of bs ?n] by auto
    finally show ?thesis .
  qed simp
qed

lemma length_to_lowercase [simp]: "length (to_lowercase s) = length s"
  by (simp add: to_lowercase_def)

lemma ascii_lower_idem [simp]: "ascii_lower (ascii_lower b) = ascii_lower b"
  by (auto simp: ascii_lower_def word_le_nat_alt unat_word_ariths)

lemma to_lowercase_idem [simp]: "to_lowercase (to_lowercase s) = to_lowercase s"
  by (simp add: to_lowercase_def)

lemma ascii_lower_lt: "b < 0x80 \<Longrightarrow> ascii_lower b < 0x80"
  by (auto simp: ascii_lower_def word_le_nat_alt word_less_nat_alt unat_word_ariths)

lemma is_ascii_to_lowercase: "is_ascii s \<Longrightarrow> is_ascii (to_lowercase s)"
  by (auto simp: is_ascii_def to_lowercase_def list_all_iff ascii_lower_lt)

lemma to_lowercase_take: "to_lowercase (take n s) = take n (to_lowercase s)"
  by (simp add: to_lowercase_def take_map)

section \<open>C strings\<close>

text \<open>
  A \<^verbatim>\<open>const char *\<close> is \<open>None\<close> for NULL, or the memory it points to. \<^verbatim>\<open>CStr::from_ptr\<close>
  reads up to the terminating zero byte; without one it reads past the allocation.
\<close>

type_synonym c_ptr = "bytes option"

definition cstr_from_ptr :: "c_ptr \<Rightarrow> bytes outcome" where
  "cstr_from_ptr p =
     (case p of
        None \<Rightarrow> Undefined
      | Some mem \<Rightarrow> (if 0 \<in> set mem then Ret (takeWhile (\<lambda>b. b \<noteq> 0) mem) else Undefined))"

lemma cstr_from_ptr_terminated [simp]:
  "0 \<notin> set s \<Longrightarrow> cstr_from_ptr (Some (s @ 0 # rest)) = Ret s"
  by (simp add: cstr_from_ptr_def takeWhile_append)

end
