(* ===== verification/Rust_Collections.thy ===== *)
theory Rust_Collections
  imports Tracy_Prelude "HOL-Library.AList"
begin

text \<open>
  The two containers of the standard library the tracer relies on, each with the contract its
  clients use stated as a locale: \<^verbatim>\<open>VecDeque\<close> (locale \<open>deque\<close>) and \<^verbatim>\<open>HashMap\<close>
  (locale \<open>string_map\<close>). The lemmas inside the locales are about the push loops and the
  iterations of the source, and are used through the interpretations.
\<close>

section \<open>VecDeque\<close>

text \<open>
  A ring buffer shows its contents as two slices (\<^verbatim>\<open>as_slices\<close>): what was pushed to the front
  lies at the end of the allocation and forms the first slice, what was pushed to the back
  lies at its start. The contract fixes the concatenation of the slices only.
\<close>

datatype 'a vecdeque = VecDeque (first_slice: "'a list") (second_slice: "'a list")

definition vd_empty :: "'a vecdeque" where
  "vd_empty = VecDeque [] []"

fun vd_push_back :: "'a vecdeque \<Rightarrow> 'a \<Rightarrow> 'a vecdeque" where
  "vd_push_back (VecDeque xs ys) a = VecDeque xs (ys @ [a])"

fun vd_push_front :: "'a vecdeque \<Rightarrow> 'a \<Rightarrow> 'a vecdeque" where
  "vd_push_front (VecDeque xs ys) a = VecDeque (a # xs) ys"

fun vd_pop_front :: "'a vecdeque \<Rightarrow> ('a \<times> 'a vecdeque) option" where
  "vd_pop_front (VecDeque (x # xs) ys) = Some (x, VecDeque xs ys)"
| "vd_pop_front (VecDeque [] (y # ys)) = Some (y, VecDeque [] ys)"
| "vd_pop_front (VecDeque [] []) = None"

fun vd_front :: "'a vecdeque \<Rightarrow> 'a option" where
  "vd_front (VecDeque (x # xs) ys) = Some x"
| "vd_front (VecDeque [] (y # ys)) = Some y"
| "vd_front (VecDeque [] []) = None"

fun vd_len :: "'a vecdeque \<Rightarrow> nat" where
  "vd_len (VecDeque xs ys) = length xs + length ys"

fun vd_as_slices :: "'a vecdeque \<Rightarrow> 'a list \<times> 'a list" where
  "vd_as_slices (VecDeque xs ys) = (xs, ys)"

definition contents :: "'a vecdeque \<Rightarrow> 'a list" where
  "contents q = first_slice q @ second_slice q"

locale deque =
  fixes empty :: "'q"
    and push_back :: "'q \<Rightarrow> 'a \<Rightarrow> 'q"
    and push_front :: "'q \<Rightarrow> 'a \<Rightarrow> 'q"
    and pop_front :: "'q \<Rightarrow> ('a \<times> 'q) option"
    and front :: "'q \<Rightarrow> 'a option"
    and len :: "'q \<Rightarrow> nat"
    and slices :: "'q \<Rightarrow> 'a list \<times> 'a list"
    and view :: "'q \<Rightarrow> 'a list"
  assumes view_empty: "view empty = []"
    and view_push_back: "view (push_back q a) = view q @ [a]"
    and view_push_front: "view (push_front q a) = a # view q"
    and pop_front_None: "pop_front q = None \<longleftrightarrow> view q = []"
    and pop_front_Some: "pop_front q = Some (a, q') \<Longrightarrow> view q = a # view q'"
    and front_view: "front q = (case view q of [] \<Rightarrow> None | a # _ \<Rightarrow> Some a)"
    and len_view: "len q = length (view q)"
    and slices_view: "fst (slices q) @ snd (slices q) = view q"
begin

text \<open>\<^verbatim>\<open>for b in xs { q.push_back(b) }\<close>\<close>

lemma view_push_back_all: "view (foldl push_back q xs) = view q @ xs"
  by (induction xs arbitrary: q) (simp_all add: view_push_back)

text \<open>\<^verbatim>\<open>for b in xs.iter().rev() { q.push_front(b) }\<close>\<close>

lemma view_push_front_all: "view (foldl push_front q (rev xs)) = xs @ view q"
  by (induction xs arbitrary: q) (simp_all add: view_push_front)

lemma pop_front_cases:
  obtains (Empty) "view q = []" "pop_front q = None" "front q = None"
  | (Front) a q' where "view q = a # view q'" "pop_front q = Some (a, q')" "front q = Some a"
proof (cases "pop_front q")
  case None
  then have "view q = []" by (simp add: pop_front_None)
  then show ?thesis by (intro Empty) (simp_all add: None front_view)
next
  case (Some p)
  obtain a q' where p: "p = (a, q')" by (cases p)
  have v: "view q = a # view q'" by (rule pop_front_Some) (simp add: Some p)
  show ?thesis by (rule Front [OF v]) (simp_all add: Some p front_view v)
qed

end

interpretation vd: deque vd_empty vd_push_back vd_push_front vd_pop_front vd_front vd_len
  vd_as_slices contents
proof (unfold_locales, goal_cases)
  case 1 show ?case by (simp add: contents_def vd_empty_def)
next
  case (2 q a) show ?case by (cases q) (simp add: contents_def)
next
  case (3 q a) show ?case by (cases q) (simp add: contents_def)
next
  case (4 q) show ?case by (cases q rule: vd_pop_front.cases) (simp_all add: contents_def)
next
  case (5 q a q') then show ?case by (cases q rule: vd_pop_front.cases) (auto simp: contents_def)
next
  case (6 q) show ?case by (cases q rule: vd_front.cases) (simp_all add: contents_def)
next
  case (7 q) show ?case by (cases q) (simp add: contents_def)
next
  case (8 q) show ?case by (cases q) (simp add: contents_def)
qed

lemmas vd_view_simps [simp] =
  vd.view_empty vd.view_push_back vd.view_push_front vd.len_view vd.slices_view
  vd.view_push_back_all vd.view_push_front_all

section \<open>HashMap\<close>

text \<open>
  A \<^verbatim>\<open>HashMap<String, V>\<close> keeps one value per key and visits its entries in an order that
  depends on the keys of its hasher only. The hasher is random, so every theorem holds for any.
\<close>

record 'v hashmap =
  hasher :: "rstring \<Rightarrow> nat"
  entries :: "(rstring \<times> 'v) list"

definition hm_new :: "(rstring \<Rightarrow> nat) \<Rightarrow> 'v hashmap" where
  "hm_new h = \<lparr>hasher = h, entries = []\<rparr>"

definition hm_get :: "'v hashmap \<Rightarrow> rstring \<Rightarrow> 'v option" where
  "hm_get m k = map_of (entries m) k"

definition hm_contains_key :: "'v hashmap \<Rightarrow> rstring \<Rightarrow> bool" where
  "hm_contains_key m k = (hm_get m k \<noteq> None)"

definition hm_insert :: "'v hashmap \<Rightarrow> rstring \<Rightarrow> 'v \<Rightarrow> 'v hashmap" where
  "hm_insert m k v = m\<lparr>entries := AList.update k v (entries m)\<rparr>"

definition hm_iter :: "'v hashmap \<Rightarrow> (rstring \<times> 'v) list" where
  "hm_iter m = sort_key (\<lambda>e. hasher m (fst e)) (entries m)"

definition hm_keys :: "'v hashmap \<Rightarrow> rstring list" where
  "hm_keys m = map fst (hm_iter m)"

definition hm_values :: "'v hashmap \<Rightarrow> 'v list" where
  "hm_values m = map snd (hm_iter m)"

definition hm_wf :: "'v hashmap \<Rightarrow> bool" where
  "hm_wf m \<longleftrightarrow> distinct (map fst (entries m))"

locale string_map =
  fixes new :: "(rstring \<Rightarrow> nat) \<Rightarrow> 'm"
    and get :: "'m \<Rightarrow> rstring \<Rightarrow> 'v option"
    and insert :: "'m \<Rightarrow> rstring \<Rightarrow> 'v \<Rightarrow> 'm"
    and keys :: "'m \<Rightarrow> rstring list"
    and "values" :: "'m \<Rightarrow> 'v list"
    and wf :: "'m \<Rightarrow> bool"
  assumes wf_new: "wf (new h)"
    and get_new: "get (new h) k = None"
    and wf_insert: "wf m \<Longrightarrow> wf (insert m k v)"
    and get_insert: "get (insert m k v) = (get m)(k \<mapsto> v)"
    and keys_set: "set (keys m) = dom (get m)"
    and keys_distinct: "wf m \<Longrightarrow> distinct (keys m)"
    and values_ran: "wf m \<Longrightarrow> set (values m) = ran (get m)"
begin

lemma get_in_values: "wf m \<Longrightarrow> get m k = Some v \<Longrightarrow> v \<in> set (values m)"
  by (auto simp: values_ran ran_def)

text \<open>\<^verbatim>\<open>for v in m.values() { v.store(b) }\<close> reaches every value a lookup can return.\<close>

lemma store_all_values:
  "wf m \<Longrightarrow> get m k = Some c \<Longrightarrow> fold (\<lambda>a f. f(a := b)) (values m) f c = b"
  by (simp add: set_fold_update get_in_values)

end

interpretation hm: string_map hm_new hm_get hm_insert hm_keys hm_values hm_wf
proof (unfold_locales, goal_cases)
  case (1 h) show ?case by (simp add: hm_wf_def hm_new_def)
next
  case (2 h k) show ?case by (simp add: hm_get_def hm_new_def)
next
  case (3 m k v) then show ?case by (simp add: hm_wf_def hm_insert_def distinct_update)
next
  case (4 m k v) show ?case by (auto simp: hm_get_def hm_insert_def update_conv')
next
  case (5 m) show ?case by (simp add: hm_keys_def hm_iter_def hm_get_def [abs_def] dom_map_of_conv_image_fst)
next
  case (6 m)
  then show ?case
    by (simp add: hm_keys_def hm_iter_def hm_wf_def distinct_map)
next
  case (7 m)
  then show ?case
    by (simp add: hm_values_def hm_iter_def hm_get_def [abs_def] hm_wf_def ran_distinct)
qed

end
