(* ===== verification/Tracer_Data.thy ===== *)
theory Tracer_Data
  imports Rust_Strings Rust_Collections
begin

text \<open>
  The data model of \<^verbatim>\<open>src/src/lib.rs\<close>: its constants, messages and structs, and the boundary to
  code that is not part of the repository. Everything the tracer asks of mio, of mio-extras
  and of the operating system is a field of the record \<open>os\<close>, an operation on a world of
  type \<open>'w\<close> about which nothing is assumed here.
\<close>

section \<open>Constants\<close>

definition SERVER_VERSION :: rstring where
  "SERVER_VERSION = bytes_of ''1.1.0''"

definition PROTOCOLL_VERSION :: rstring where
  "PROTOCOLL_VERSION = bytes_of ''1.1.0''"

definition MAX_TRACEPOINT_NAME_LEN :: nat where
  [simp]: "MAX_TRACEPOINT_NAME_LEN = 32"

definition MAX_SUBMIT_LEN :: nat where
  [simp]: "MAX_SUBMIT_LEN = 2048"

definition QUEUE_TOTAL_SIZE :: nat where
  [simp]: "QUEUE_TOTAL_SIZE = 4096"

definition TIMESTAMP_LEN :: nat where
  [simp]: "TIMESTAMP_LEN = 8"

definition QUEUE_TIMEOUT_IDENT :: nat where
  [simp]: "QUEUE_TIMEOUT_IDENT = 42"

definition UDP_TIMEOUT_IDENT :: nat where
  [simp]: "UDP_TIMEOUT_IDENT = 9001"

definition CHAN :: nat where
  [simp]: "CHAN = 1"

definition TIMER :: nat where
  [simp]: "TIMER = 2"

definition CON_NEW :: nat where
  [simp]: "CON_NEW = 3"

definition CON_DATA :: nat where
  [simp]: "CON_DATA = 4"

section \<open>Structs and enums\<close>

text \<open>
  Handles: a descriptor of a socket, a pending timeout, and the address of an
  \<^verbatim>\<open>Arc<AtomicBool>\<close>. A \<^verbatim>\<open>SystemTime\<close> is the number of nanoseconds since the epoch, negative
  before it; a \<^verbatim>\<open>Duration\<close> a number of milliseconds, as only \<^verbatim>\<open>from_millis\<close> makes one.
\<close>

type_synonym fd = nat
type_synonym timeout = nat
type_synonym cell = nat
type_synonym system_time = int
type_synonym duration = nat

datatype sockaddr = SocketAddrV4 u32 u16 | SocketAddrV6 "128 word" u16

record BufferElement =
  el_tracepoint :: rstring
  el_timestamp :: system_time
  el_data :: bytes

definition el_len :: "BufferElement \<Rightarrow> nat" where
  "el_len e = length (el_tracepoint e) + TIMESTAMP_LEN + length (el_data e)"

record Tracepoint =
  tp_name :: rstring
  tp_state :: cell

datatype ChannelMessage =
    Payload BufferElement
  | NewTracepoint Tracepoint
  | TerminateMsg

datatype TracerState = Normal | Terminate | DataProcessed

record TracerNg =
  ng_client_connected :: cell
  ng_tracepoints :: "cell hashmap"

record InitData =
  hostname :: rstring
  process_name :: rstring
  send_interval :: duration
  announce_interval :: duration
  announce_addr :: "sockaddr option"
  announce_iface :: "rstring option"

section \<open>The world outside the repository\<close>

datatype io_error = WouldBlock | Interrupted | UnexpectedEof | WriteZero | OtherError

datatype poll_source = ChannelSource | TimerSource | SocketSource fd

record 'w os =
  os_tcp_bind :: "'w \<Rightarrow> u16 \<Rightarrow> 'w \<times> fd option"
  os_local_port :: "'w \<Rightarrow> fd \<Rightarrow> u16 option"
  os_accept :: "'w \<Rightarrow> fd \<Rightarrow> 'w \<times> fd option"
  os_try_clone :: "'w \<Rightarrow> fd \<Rightarrow> 'w \<times> fd option"
  os_drop :: "'w \<Rightarrow> fd \<Rightarrow> 'w"
  os_read :: "'w \<Rightarrow> fd \<Rightarrow> nat \<Rightarrow> 'w \<times> (io_error + bytes)"
  os_write :: "'w \<Rightarrow> fd \<Rightarrow> bytes \<Rightarrow> 'w \<times> (io_error + nat)"
  os_udp_bind :: "'w \<Rightarrow> rstring \<Rightarrow> 'w \<times> fd option"
  os_send_to :: "'w \<Rightarrow> fd \<Rightarrow> bytes \<Rightarrow> sockaddr \<Rightarrow> 'w"
  os_poll_new :: "'w \<Rightarrow> 'w \<times> bool"
  os_register :: "'w \<Rightarrow> poll_source \<Rightarrow> nat \<Rightarrow> 'w \<times> bool"
  os_deregister :: "'w \<Rightarrow> fd \<Rightarrow> 'w"
  os_poll :: "'w \<Rightarrow> 'w \<times> nat list option"
  os_set_timeout :: "'w \<Rightarrow> duration \<Rightarrow> nat \<Rightarrow> 'w \<times> timeout"
  os_cancel_timeout :: "'w \<Rightarrow> timeout \<Rightarrow> 'w"
  os_timer_poll :: "'w \<Rightarrow> 'w \<times> nat option"
  os_chan_send :: "'w \<Rightarrow> ChannelMessage \<Rightarrow> 'w \<times> bool"
  os_try_recv :: "'w \<Rightarrow> 'w \<times> ChannelMessage option"
  os_now :: "'w \<Rightarrow> 'w \<times> system_time"
  os_parse_addr :: "rstring \<Rightarrow> sockaddr option"

text \<open>
  \<open>io_frame os E\<close>: every operation of the environment other than the timer and the two ends
  of the channel changes the world along \<open>E\<close>; \<open>env_frame\<close> adds the timer. With \<open>E\<close> the
  equality of some part of the world this is a frame condition; with \<open>E\<close> always true it holds
  of any environment.
\<close>

locale io_frame =
  fixes os :: "'w os"
    and E :: "'w \<Rightarrow> 'w \<Rightarrow> bool"
  assumes E_refl: "E w w"
    and E_trans: "E w w' \<Longrightarrow> E w' w'' \<Longrightarrow> E w w''"
    and E_tcp_bind: "os_tcp_bind os w port = (w', l') \<Longrightarrow> E w w'"
    and E_udp_bind: "os_udp_bind os w iface = (w', u) \<Longrightarrow> E w w'"
    and E_poll_new: "os_poll_new os w = (w', ok) \<Longrightarrow> E w w'"
    and E_accept: "os_accept os w l = (w', a) \<Longrightarrow> E w w'"
    and E_try_clone: "os_try_clone os w s = (w', t) \<Longrightarrow> E w w'"
    and E_drop: "E w (os_drop os w s)"
    and E_read: "os_read os w s n = (w', res) \<Longrightarrow> E w w'"
    and E_write: "os_write os w s bs = (w', res') \<Longrightarrow> E w w'"
    and E_send_to: "E w (os_send_to os w s bs addr)"
    and E_register: "os_register os w src token = (w', b) \<Longrightarrow> E w w'"
    and E_deregister: "E w (os_deregister os w s)"
    and E_poll: "os_poll os w = (w', evs) \<Longrightarrow> E w w'"
    and E_now: "os_now os w = (w', t') \<Longrightarrow> E w w'"

locale env_frame = io_frame +
  assumes E_set_timeout: "os_set_timeout os w d ident = (w', h) \<Longrightarrow> E w w'"
    and E_cancel_timeout: "E w (os_cancel_timeout os w h)"
    and E_timer_poll: "os_timer_poll os w = (w', i) \<Longrightarrow> E w w'"

lemma env_frame_io: "env_frame os E \<Longrightarrow> io_frame os E"
  by (rule env_frame.axioms)

section \<open>State shared by the application and the tracer thread\<close>

text \<open>
  The cells of the \<^verbatim>\<open>Arc<AtomicBool>\<close> values are an explicit store, since the handle of the
  application and the context of the thread hold the same cells. The context of the thread is
  an extension of this record, so the interface functions run on it directly.
  \<^verbatim>\<open>poll\<close>, \<^verbatim>\<open>rec\<close> and \<^verbatim>\<open>timer\<close> of \<^verbatim>\<open>TracerContext\<close> live in the world.
\<close>

record 'w machine =
  world :: 'w
  atomics :: "cell \<Rightarrow> bool"
  next_cell :: cell

lemma world_self [simp]: "m\<lparr>world := world m\<rparr> = m"
  by (cases m) simp

definition store :: "cell \<Rightarrow> bool \<Rightarrow> ('w, 'z) machine_scheme \<Rightarrow> ('w, 'z) machine_scheme" where
  "store a b m = m\<lparr>atomics := (atomics m)(a := b)\<rparr>"

text \<open>\<^verbatim>\<open>Arc::new(AtomicBool::new(b))\<close>\<close>

definition new_cell :: "bool \<Rightarrow> ('w, 'z) machine_scheme \<Rightarrow> cell \<times> ('w, 'z) machine_scheme" where
  "new_cell b m =
     (next_cell m, m\<lparr>atomics := (atomics m)(next_cell m := b), next_cell := Suc (next_cell m)\<rparr>)"

record 'w TracerContext = "'w machine" +
  app_cfg :: InitData
  buffer :: "BufferElement vecdeque"
  buffer_occupancy :: usize
  queue_timeout :: "timeout option"
  udp_timeout :: "timeout option"
  udp_sock :: "fd option"
  listener :: fd
  connection :: "fd option"
  client_connected :: cell
  tracepoints :: "cell hashmap"
  sequence_no :: u64

section \<open>Well-formed messages\<close>

text \<open>What \<^verbatim>\<open>tracy_submit\<close> lets through: a normalised name and between 1 and 2048 bytes.\<close>

definition name_ok :: "rstring \<Rightarrow> bool" where
  "name_ok s \<longleftrightarrow> length s \<le> MAX_TRACEPOINT_NAME_LEN \<and> is_ascii s \<and> to_lowercase s = s"

definition element_ok :: "BufferElement \<Rightarrow> bool" where
  "element_ok e \<longleftrightarrow>
     name_ok (el_tracepoint e) \<and> 0 < length (el_data e) \<and> length (el_data e) \<le> MAX_SUBMIT_LEN"

fun message_ok :: "ChannelMessage \<Rightarrow> bool" where
  "message_ok (Payload e) = element_ok e"
| "message_ok (NewTracepoint t) = name_ok (tp_name t)"
| "message_ok TerminateMsg = True"

lemma element_ok_len: "element_ok e \<Longrightarrow> el_len e \<le> 2088"
  by (auto simp: element_ok_def name_ok_def el_len_def)

end
