(* ===== verification/Tcp_Wire.thy ===== *)
theory Tcp_Wire
  imports Wire_Bytes Tracer_Data
begin

text \<open>
  The TLV protocol of \<^verbatim>\<open>src/src/tcp_handler.rs\<close>: commands, the 12-byte header and its parser, and
  the encoding of trace data. The second half states the protocol of
  \<^verbatim>\<open>src/doc/tlv_documentation.txt\<close> as decoders and shows that the encoders implement it.
\<close>

section \<open>Commands and headers\<close>

definition HEADER_LEN :: nat where
  [simp]: "HEADER_LEN = 12"

definition MAGIC_NUMB :: bytes where
  "MAGIC_NUMB = [0x52, 0x75, 0x53, 0x74]"

datatype Command =
    TracepointListRequest
  | TracepointListReply
  | TracepointEnableRequest
  | TracepointDisableRequest
  | TracePush
  | Invalid

fun cmd_as_u16 :: "Command \<Rightarrow> u16" where
  "cmd_as_u16 TracepointListRequest = 1"
| "cmd_as_u16 TracepointListReply = 2"
| "cmd_as_u16 TracepointEnableRequest = 3"
| "cmd_as_u16 TracepointDisableRequest = 4"
| "cmd_as_u16 TracePush = 5"
| "cmd_as_u16 Invalid = 42"

definition push_front_header :: "u8 vecdeque \<Rightarrow> Command \<Rightarrow> u8 vecdeque" where
  "push_front_header que cmd =
     (let flags = (0 :: u16);
          length' = (of_nat (vd_len que) :: u32);
          que = foldl vd_push_front que (rev (u32_to_be_bytes length'));
          tmp = cmd_as_u16 cmd;
          que = foldl vd_push_front que (rev (u16_to_be_bytes tmp));
          que = foldl vd_push_front que (rev (u16_to_be_bytes flags))
      in foldl vd_push_front que (rev MAGIC_NUMB))"

definition check_magic_number :: "bytes \<Rightarrow> bool" where
  "check_magic_number number \<longleftrightarrow>
     number ! 0 = MAGIC_NUMB ! 0 \<and> number ! 1 = MAGIC_NUMB ! 1 \<and>
     number ! 2 = MAGIC_NUMB ! 2 \<and> number ! 3 = MAGIC_NUMB ! 3"

definition check_flags :: "u16 \<Rightarrow> unit option" where
  "check_flags flags = (if flags \<noteq> 0 then None else Some ())"

definition cmd_number_to_enum :: "u16 \<Rightarrow> Command" where
  "cmd_number_to_enum cmd =
     (if cmd = cmd_as_u16 TracepointListRequest then TracepointListRequest
      else if cmd = cmd_as_u16 TracepointEnableRequest then TracepointEnableRequest
      else if cmd = cmd_as_u16 TracepointDisableRequest then TracepointDisableRequest
      else if cmd = cmd_as_u16 TracepointListReply then TracepointListReply
      else if cmd = cmd_as_u16 TracePush then TracePush
      else Invalid)"

fun check_cmd_validity :: "Command \<Rightarrow> u32 \<Rightarrow> unit option" where
  "check_cmd_validity TracepointListRequest len = (if len \<noteq> 0 then None else Some ())"
| "check_cmd_validity TracepointEnableRequest len = (if len = 0 then None else Some ())"
| "check_cmd_validity TracepointDisableRequest len = (if len = 0 then None else Some ())"
| "check_cmd_validity _ len = None"

text \<open>
  The verdict of \<open>check_cmd_validity\<close> selects a diagnostic on stderr and nothing else:
  the source does not return after printing it. The result is paired with that diagnostic bit.
\<close>

definition check_parse_header :: "bytes \<Rightarrow> bool \<times> (Command \<times> u32) option" where
  "check_parse_header header =
     (if \<not> check_magic_number (take 4 header) then (False, None)
      else
        let flags = u16_from_be_bytes (take 2 (drop 4 header));
            command = u16_from_be_bytes (take 2 (drop 6 header));
            len = u32_from_be_bytes (take 4 (drop 8 header));
            cmd = cmd_number_to_enum command;
            complained = (check_cmd_validity cmd len = None)
        in (complained, case check_flags flags of None \<Rightarrow> None | Some _ \<Rightarrow> Some (cmd, len)))"

section \<open>Trace data\<close>

text \<open>\<^verbatim>\<open>secs * 1e9 as u64 + nanos\<close> in wrapping 64-bit arithmetic; 0 before the epoch.\<close>

definition timestamp_to_u64 :: "system_time \<Rightarrow> u64" where
  "timestamp_to_u64 time =
     (if time < 0 then 0
      else
        let secs = (of_int (time div 1000000000) :: u64);
            nanos = (of_int (time mod 1000000000) :: u64)
        in secs * 1000000000 + nanos)"

definition encode_append_trace_data :: "u8 vecdeque \<Rightarrow> BufferElement \<Rightarrow> u8 vecdeque" where
  "encode_append_trace_data que bufelm =
     (let tp_len = (of_nat (length (el_tracepoint bufelm)) :: u16);
          que = foldl vd_push_back que (u16_to_be_bytes tp_len);
          que = foldl vd_push_back que (el_tracepoint bufelm);
          que = foldl vd_push_back que (u64_to_be_bytes (timestamp_to_u64 (el_timestamp bufelm)));
          data_len = (of_nat (length (el_data bufelm)) :: u16);
          que = foldl vd_push_back que (u16_to_be_bytes data_len)
      in foldl vd_push_back que (el_data bufelm))"

text \<open>The body of \<^verbatim>\<open>send_tracepoint_list\<close>: a length-prefixed name per tracepoint.\<close>

definition push_name :: "u8 vecdeque \<Rightarrow> rstring \<Rightarrow> u8 vecdeque" where
  "push_name msg tracepoint =
     foldl vd_push_back
       (foldl vd_push_back msg (u16_to_be_bytes (of_nat (length tracepoint)))) tracepoint"

section \<open>The protocol as decoders\<close>

text \<open>A length-prefixed field: \<open>n\<close> bytes after a big-endian 16-bit \<open>n\<close>.\<close>

definition enc_name :: "rstring \<Rightarrow> bytes" where
  "enc_name s = u16_to_be_bytes (of_nat (length s)) @ s"

definition dec_name :: "bytes \<Rightarrow> (rstring \<times> bytes) option" where
  "dec_name bs =
     (let n = unat (u16_from_be_bytes (take 2 bs))
      in if length bs < 2 + n then None else Some (take n (drop 2 bs), drop (2 + n) bs))"

definition short :: "bytes \<Rightarrow> bool" where
  "short s \<longleftrightarrow> length s < 65536"

text \<open>One package of a TRACE\_PUSH: name, timestamp, data.\<close>

type_synonym package = "rstring \<times> u64 \<times> bytes"

definition package_of :: "BufferElement \<Rightarrow> package" where
  "package_of e = (el_tracepoint e, timestamp_to_u64 (el_timestamp e), el_data e)"

fun enc_package :: "package \<Rightarrow> bytes" where
  "enc_package (s, t, d) = enc_name s @ u64_to_be_bytes t @ enc_name d"

definition dec_package :: "bytes \<Rightarrow> (package \<times> bytes) option" where
  "dec_package bs =
     (case dec_name bs of
        None \<Rightarrow> None
      | Some (s, bs1) \<Rightarrow>
          (if length bs1 < 8 then None
           else case dec_name (drop 8 bs1) of
               None \<Rightarrow> None
             | Some (d, bs2) \<Rightarrow> Some ((s, u64_from_be_bytes (take 8 bs1), d), bs2)))"

fun package_short :: "package \<Rightarrow> bool" where
  "package_short (s, t, d) \<longleftrightarrow> short s \<and> short d"

text \<open>A frame: the header with a zero flags field, then as many bytes as it announces.\<close>

type_synonym frame = "u16 \<times> bytes"

fun enc_frame :: "frame \<Rightarrow> bytes" where
  "enc_frame (cmd, body) =
     MAGIC_NUMB @ u16_to_be_bytes 0 @ u16_to_be_bytes cmd @
     u32_to_be_bytes (of_nat (length body)) @ body"

definition dec_frame :: "bytes \<Rightarrow> (frame \<times> bytes) option" where
  "dec_frame bs =
     (let n = unat (u32_from_be_bytes (take 4 (drop 8 bs)))
      in if take 4 bs \<noteq> MAGIC_NUMB \<or> take 2 (drop 4 bs) \<noteq> u16_to_be_bytes 0 \<or>
            length bs < 12 + n then None
         else Some ((u16_from_be_bytes (take 2 (drop 6 bs)), take n (drop 12 bs)), drop (12 + n) bs))"

fun frame_short :: "frame \<Rightarrow> bool" where
  "frame_short (cmd, body) \<longleftrightarrow> length body < 4294967296"

lemma length_MAGIC_NUMB [simp]: "length MAGIC_NUMB = 4"
  by (simp add: MAGIC_NUMB_def)

lemma dec_name_enc: "short s \<Longrightarrow> dec_name (enc_name s @ rest) = Some (s, rest)"
  by (simp add: dec_name_def enc_name_def short_def Let_def unat_of_nat)

lemma length_enc_name [simp]: "length (enc_name s) = 2 + length s"
  by (simp add: enc_name_def)

lemma dec_package_enc: "package_short p \<Longrightarrow> dec_package (enc_package p @ rest) = Some (p, rest)"
  by (cases p) (simp add: dec_package_def dec_name_enc)

lemma dec_frame_enc: "frame_short f \<Longrightarrow> dec_frame (enc_frame f @ rest) = Some (f, rest)"
  by (cases f) (simp add: dec_frame_def Let_def unat_of_nat)

interpretation names: record_codec enc_name dec_name short
proof (unfold_locales, goal_cases)
  case (1 s rest) then show ?case by (rule dec_name_enc)
next
  case (2 s) show ?case by (simp flip: length_greater_0_conv)
qed

interpretation packages: record_codec enc_package dec_package package_short
proof (unfold_locales, goal_cases)
  case (1 p rest) then show ?case by (rule dec_package_enc)
next
  case (2 p) show ?case by (cases p) (simp add: enc_name_def flip: length_greater_0_conv)
qed

interpretation frames: record_codec enc_frame dec_frame frame_short
proof (unfold_locales, goal_cases)
  case (1 f rest) then show ?case by (rule dec_frame_enc)
next
  case (2 f) show ?case by (cases f) (simp flip: length_greater_0_conv)
qed

text \<open>A frame that is cut behind its header takes the missing part of its body from what follows.\<close>

lemma dec_frame_cut:
  assumes "HEADER_LEN \<le> n" and "length (enc_frame (cmd, body)) \<le> n + length rest"
    and "n < length (enc_frame (cmd, body))" and "length body < 4294967296"
  shows "dec_frame (take n (enc_frame (cmd, body)) @ rest) =
    Some ((cmd, take (n - HEADER_LEN) body @ take (length (enc_frame (cmd, body)) - n) rest),
      drop (length (enc_frame (cmd, body)) - n) rest)"
proof -
  define m where "m = length (enc_frame (cmd, body)) - n"
  define body' where "body' = take (n - HEADER_LEN) body @ take m rest"
  have len: "length body' = length body" using assms(1-3) by (simp add: body'_def m_def)
  have "take n (enc_frame (cmd, body)) = take 12 (enc_frame (cmd, body)) @ take (n - HEADER_LEN) body"
    using assms(1) by simp
  moreover have "enc_frame (cmd, body') = take 12 (enc_frame (cmd, body)) @ body'"
    using len by simp
  ultimately have "take n (enc_frame (cmd, body)) @ rest = enc_frame (cmd, body') @ drop m rest"
    by (simp add: body'_def del: enc_frame.simps)
  with dec_frame_enc [of "(cmd, body')" "drop m rest"] assms(4) len show ?thesis
    by (simp add: body'_def m_def del: enc_frame.simps)
qed

section \<open>The encoders implement the protocol\<close>

lemma contents_push_front_header:
  "contents (push_front_header que cmd) = enc_frame (cmd_as_u16 cmd, contents que)"
  by (simp add: push_front_header_def Let_def)

lemma contents_encode_append:
  "contents (encode_append_trace_data que e) = contents que @ enc_package (package_of e)"
  by (simp add: encode_append_trace_data_def package_of_def enc_name_def Let_def)

lemma contents_push_name: "contents (push_name que s) = contents que @ enc_name s"
  by (simp add: push_name_def enc_name_def)

lemma contents_push_names:
  "contents (foldl push_name que ss) = contents que @ concat (map enc_name ss)"
  by (induction ss arbitrary: que) (simp_all add: contents_push_name)

lemma length_enc_package: "length (enc_package (package_of e)) = el_len e + 4"
  by (simp add: package_of_def el_len_def)

lemma length_enc_frame: "length (enc_frame f) = HEADER_LEN + length (snd f)"
  by (cases f) simp

lemma element_ok_package_short: "element_ok e \<Longrightarrow> package_short (package_of e)"
  by (auto simp: element_ok_def name_ok_def package_of_def short_def)

lemma timestamp_to_u64_eq:
  assumes "0 \<le> t"
  shows "timestamp_to_u64 t = of_int t"
proof -
  have "timestamp_to_u64 t =
      of_int (t div 1000000000) * of_int 1000000000 + of_int (t mod 1000000000)"
    using assms by (simp add: timestamp_to_u64_def Let_def)
  also have "\<dots> = of_int (t div 1000000000 * 1000000000 + t mod 1000000000)"
    by (simp only: of_int_add of_int_mult)
  finally show ?thesis by (simp only: div_mult_mod_eq)
qed

section \<open>The header parser\<close>

lemma check_magic_number_iff: "length m = 4 \<Longrightarrow> check_magic_number m \<longleftrightarrow> m = MAGIC_NUMB"
  by (auto simp: check_magic_number_def MAGIC_NUMB_def list_eq_iff_nth_eq numeral_eq_Suc less_Suc_eq)

lemma cmd_number_roundtrip: "cmd_number_to_enum (cmd_as_u16 cmd) = cmd"
  by (cases cmd) (simp_all add: cmd_number_to_enum_def)

lemma check_parse_header_enc_frame:
  assumes "length body < 4294967296"
  shows "snd (check_parse_header (take 12 (enc_frame (cmd_as_u16 cmd, body)))) =
    Some (cmd, of_nat (length body))"
  by (simp add: check_parse_header_def check_magic_number_iff Let_def check_flags_def
      cmd_number_roundtrip)

lemma check_parse_header_iff:
  assumes "length h = 12"
  shows "snd (check_parse_header h) = Some (cmd, len) \<longleftrightarrow>
    take 4 h = MAGIC_NUMB \<and> take 2 (drop 4 h) = u16_to_be_bytes 0 \<and>
    cmd = cmd_number_to_enum (u16_from_be_bytes (take 2 (drop 6 h))) \<and>
    len = u32_from_be_bytes (drop 8 h)"
  using assms u16_from_be_bytes_eq_iff [of "take 2 (drop 4 h)" 0]
  by (auto simp: check_parse_header_def check_magic_number_iff check_flags_def Let_def)

section \<open>Properties\<close>

text \<open>
  C18. Header round trip: whatever command the tracer puts in front of a queue of fewer than
  \<open>2 ^ 32\<close> bytes, the header parser reads the same command back, with the length of the queue.
\<close>

theorem header_roundtrip:
  assumes "vd_len que < 4294967296"
  shows "\<exists>len. snd (check_parse_header (take HEADER_LEN (contents (push_front_header que cmd)))) =
      Some (cmd, len) \<and> unat len = vd_len que"
  using assms check_parse_header_enc_frame [of "contents que" cmd]
  by (simp add: contents_push_front_header unat_of_nat del: enc_frame.simps)

theorem header_roundtrip_witness:
  "\<exists>len. snd (check_parse_header (take HEADER_LEN
      (contents (push_front_header (VecDeque [] [1, 2, 3]) TracePush)))) = Some (TracePush, len) \<and>
      unat len = vd_len (VecDeque [] [1, 2, 3 :: u8])"
  by (rule header_roundtrip) (simp add: contents_def)

text \<open>
  C19. What the header parser accepts: exactly the headers with the magic number and a zero flags
  field, and then the command is looked up from bytes 6 and 7 and the length from bytes 8 to 11.
  Neither the command nor its length is a reason to reject.
\<close>

theorem check_parse_header_accepts:
  assumes "length h = HEADER_LEN"
  shows "snd (check_parse_header h) =
    (if take 4 h = MAGIC_NUMB \<and> take 2 (drop 4 h) = u16_to_be_bytes 0
     then Some (cmd_number_to_enum (u16_from_be_bytes (take 2 (drop 6 h))),
                u32_from_be_bytes (drop 8 h))
     else None)"
  using assms u16_from_be_bytes_eq_iff [of "take 2 (drop 4 h)" 0]
  by (auto simp: check_parse_header_def check_magic_number_iff check_flags_def Let_def)

theorem check_parse_header_accepts_witness:
  "snd (check_parse_header [0x52, 0x75, 0x53, 0x74, 0, 0, 0, 3, 0, 0, 0, 7]) =
     Some (TracepointEnableRequest, 7)"
  using check_parse_header_accepts [of "[0x52, 0x75, 0x53, 0x74, 0, 0, 0, 3, 0, 0, 0, 7]"]
  by (simp add: MAGIC_NUMB_def be_eval cmd_number_to_enum_def)

text \<open>
  C37. A command that \<^verbatim>\<open>check_cmd_validity\<close> rejects is complained about on stderr and accepted all
  the same, although the comment in \<^verbatim>\<open>receive\<close> says an invalid header closes the connection.
\<close>

theorem invalid_command_accepted:
  assumes "check_cmd_validity cmd len = None"
  shows "check_parse_header
      (MAGIC_NUMB @ u16_to_be_bytes 0 @ u16_to_be_bytes (cmd_as_u16 cmd) @ u32_to_be_bytes len) =
    (True, Some (cmd, len))"
  using assms
  by (simp add: check_parse_header_def check_magic_number_iff Let_def check_flags_def
      cmd_number_roundtrip)

theorem invalid_command_accepted_witness:
  "check_parse_header
      (MAGIC_NUMB @ u16_to_be_bytes 0 @ u16_to_be_bytes (cmd_as_u16 TracePush) @ u32_to_be_bytes 9) =
    (True, Some (TracePush, 9))"
  by (rule invalid_command_accepted) simp

text \<open>
  C8. Trace data round trip: the bytes \<^verbatim>\<open>encode_append_trace_data\<close> appends for a sequence of
  submitted elements are read back, by the decoder of the documented format, as the same
  names, timestamps and data in the same order.
\<close>

theorem trace_data_roundtrip:
  assumes "list_all element_ok es"
  shows "dec_all dec_package (contents (foldl encode_append_trace_data vd_empty es)) =
    Some (map package_of es)"
proof -
  have "contents (foldl encode_append_trace_data que es) =
      contents que @ concat (map enc_package (map package_of es))" for que
    by (induction es arbitrary: que) (simp_all add: contents_encode_append)
  moreover have "list_all package_short (map package_of es)"
    using assms by (auto simp: list_all_iff element_ok_package_short)
  ultimately show ?thesis by (simp add: packages.dec_all_concat del: map_map)
qed

theorem trace_data_roundtrip_witness:
  "dec_all dec_package (contents (foldl encode_append_trace_data vd_empty
      [\<lparr>el_tracepoint = bytes_of ''tp'', el_timestamp = 5, el_data = [1, 2]\<rparr>])) =
    Some (map package_of [\<lparr>el_tracepoint = bytes_of ''tp'', el_timestamp = 5, el_data = [1, 2]\<rparr>])"
  by (rule trace_data_roundtrip)
    (simp add: element_ok_def name_ok_def bytes_of_def to_lowercase_def ascii_lower_def)

text \<open>
  C36. A timestamp is the number of nanoseconds since the epoch as long as that fits in 64 bits
  (until the year 2554), whatever the split into seconds and nanoseconds; before the epoch it
  is 0.
\<close>

theorem timestamp_exact:
  "timestamp_to_u64 t = (if t < 0 then 0 else of_int t) \<and>
   (0 \<le> t \<longrightarrow> t < 2 ^ 64 \<longrightarrow> uint (timestamp_to_u64 t) = t)"
  by (simp add: timestamp_to_u64_eq unsigned_of_int take_bit_eq_mod)
    (simp add: timestamp_to_u64_def)

theorem timestamp_exact_witness:
  "uint (timestamp_to_u64 1600000000123456789) = 1600000000123456789"
  using timestamp_exact [of 1600000000123456789] by simp

end
