(* ===== verification/Rust_IO.thy ===== *)
theory Rust_IO
  imports Tracer_Data
begin

text \<open>
  Buffered reading and complete writing as the standard library does them over a socket that
  may deliver data in any portions: \<^verbatim>\<open>BufReader\<close> with capacity \<^verbatim>\<open>REC_BUF_SZ\<close>,
  \<^verbatim>\<open>Read::read_exact\<close> and \<^verbatim>\<open>Write::write_all\<close>. The retry loops are bounded by fuel;
  the lemmas say how much is enough when the bytes are at hand.
\<close>

section \<open>BufReader\<close>

definition REC_BUF_SZ :: nat where
  [simp]: "REC_BUF_SZ = 4096"

record bufreader =
  br_stream :: fd
  br_buf :: bytes

definition br_new :: "fd \<Rightarrow> bufreader" where
  "br_new s = \<lparr>br_stream = s, br_buf = []\<rparr>"

text \<open>
  \<^verbatim>\<open>BufReader::read\<close>: an empty buffer is refilled by one read of the socket, unless the request
  is at least as large as the buffer.
\<close>

definition br_read ::
  "'w os \<Rightarrow> 'w \<Rightarrow> bufreader \<Rightarrow> nat \<Rightarrow> 'w \<times> bufreader \<times> (io_error + bytes)" where
  "br_read os w r n =
     (if br_buf r = [] then
        (if REC_BUF_SZ \<le> n then
           (case os_read os w (br_stream r) n of (w', res) \<Rightarrow> (w', r, res))
         else
           (case os_read os w (br_stream r) REC_BUF_SZ of
              (w', Inl e) \<Rightarrow> (w', r, Inl e)
            | (w', Inr bs) \<Rightarrow> (w', r\<lparr>br_buf := drop n bs\<rparr>, Inr (take n bs))))
      else (w, r\<lparr>br_buf := drop n (br_buf r)\<rparr>, Inr (take n (br_buf r))))"

primrec read_exact ::
  "'w os \<Rightarrow> nat \<Rightarrow> 'w \<Rightarrow> bufreader \<Rightarrow> nat \<Rightarrow> ('w \<times> bufreader \<times> (io_error + bytes)) outcome"
where
  "read_exact os 0 w r n = Spin"
| "read_exact os (Suc k) w r n =
     (if n = 0 then Ret (w, r, Inr [])
      else case br_read os w r n of
          (w', r', Inl e) \<Rightarrow>
            (if e = Interrupted then read_exact os k w' r' n else Ret (w', r', Inl e))
        | (w', r', Inr bs) \<Rightarrow>
            (if bs = [] then Ret (w', r', Inl UnexpectedEof)
             else obind (read_exact os k w' r' (n - length bs)) (\<lambda>(w'', r'', res).
               case res of
                 Inl e \<Rightarrow> Ret (w'', r'', Inl e)
               | Inr cs \<Rightarrow> Ret (w'', r'', Inr (bs @ cs)))))"

text \<open>When the request is in the buffer, it is served from there and the socket is not touched.\<close>

lemma read_exact_buffered:
  assumes "n \<le> length (br_buf r)" and "2 \<le> k"
  shows "read_exact os k w r n = Ret (w, r\<lparr>br_buf := drop n (br_buf r)\<rparr>, Inr (take n (br_buf r)))"
proof -
  obtain j where k: "k = Suc (Suc j)"
    using assms(2) by (metis Suc_le_D numeral_2_eq_2 Suc_le_mono)
  have "br_buf r \<noteq> []" if "n \<noteq> 0" using that assms(1) by auto
  then show ?thesis using assms(1) by (auto simp: k br_read_def)
qed

text \<open>When the buffer is empty, one portion that covers the request is enough.\<close>

lemma read_exact_refill:
  assumes "br_buf r = []" and "os_read os w (br_stream r) REC_BUF_SZ = (w', Inr bs)"
    and "0 < n" and "n \<le> length bs" and "n < REC_BUF_SZ" and "2 \<le> k"
  shows "read_exact os k w r n = Ret (w', r\<lparr>br_buf := drop n bs\<rparr>, Inr (take n bs))"
proof -
  obtain j where k: "k = Suc (Suc j)"
    using assms(6) by (metis Suc_le_D numeral_2_eq_2 Suc_le_mono)
  have "bs \<noteq> []" using assms(3,4) by auto
  then show ?thesis using assms by (auto simp: k br_read_def)
qed

lemma read_exact_error:
  assumes "br_buf r = []" and "os_read os w (br_stream r) REC_BUF_SZ = (w', Inl e)"
    and "0 < n" and "n < REC_BUF_SZ" and "e \<noteq> Interrupted" and "0 < k"
  shows "read_exact os k w r n = Ret (w', r, Inl e)"
  using assms by (cases k) (auto simp: br_read_def)

lemma read_exact_no_panic [simp]:
  "read_exact os k w r n \<noteq> Panic p" "read_exact os k w r n \<noteq> Undefined"
  by (induction k arbitrary: w r n)
    (auto simp: outcome_simps split: prod.splits sum.splits if_splits)

text \<open>One round of the loop, as a case rule: what the portion was and how the loop went on.\<close>

lemma read_exact_RetE:
  assumes ret: "read_exact os (Suc k) w r n = Ret (w', r', res)"
    and br: "br_read os w r n = (w1, r1, res1)"
  obtains (Zero) "n = 0" "w' = w" "r' = r" "res = Inr []"
  | (Retry) "n \<noteq> 0" "res1 = Inl Interrupted" "read_exact os k w1 r1 n = Ret (w', r', res)"
  | (Error) e where "n \<noteq> 0" "res1 = Inl e" "e \<noteq> Interrupted" "w' = w1" "r' = r1" "res = Inl e"
  | (Eof) "n \<noteq> 0" "res1 = Inr []" "w' = w1" "r' = r1" "res = Inl UnexpectedEof"
  | (More) bs res2 where "n \<noteq> 0" "res1 = Inr bs" "bs \<noteq> []"
      "read_exact os k w1 r1 (n - length bs) = Ret (w', r', res2)"
      "res = (case res2 of Inl e \<Rightarrow> Inl e | Inr cs \<Rightarrow> Inr (bs @ cs))"
proof (cases "n = 0")
  case True
  with ret show thesis by (intro Zero) auto
next
  case n: False
  show thesis
  proof (cases res1)
    case (Inl e)
    with ret br n show thesis
      by (cases "e = Interrupted") (auto intro: Retry Error)
  next
    case (Inr bs)
    show thesis
    proof (cases "bs = []")
      case True
      with ret br n Inr show thesis by (intro Eof) auto
    next
      case False
      obtain w2 r2 res2 where rest: "read_exact os k w1 r1 (n - length bs) = Ret (w2, r2, res2)"
        and fin: "(case res2 of Inl e \<Rightarrow> Ret (w2, r2, Inl e) | Inr cs \<Rightarrow> Ret (w2, r2, Inr (bs @ cs)))
          = Ret (w', r', res)"
        using ret br n Inr False by (auto simp: outcome_simps)
      from fin have "w2 = w'" "r2 = r'" "res = (case res2 of Inl e \<Rightarrow> Inl e | Inr cs \<Rightarrow> Inr (bs @ cs))"
        by (cases res2; auto)+
      with rest n Inr False show thesis by (intro More) auto
    qed
  qed
qed

lemma br_read_stream: "br_read os w r n = (w', r', res) \<Longrightarrow> br_stream r' = br_stream r"
  by (auto simp: br_read_def split: prod.splits sum.splits if_splits)

lemma br_read_length:
  "br_read os w r n = (w', r', Inr bs) \<Longrightarrow> n < REC_BUF_SZ \<Longrightarrow> length bs \<le> n"
  by (auto simp: br_read_def split: prod.splits sum.splits if_splits)

lemma read_exact_stream:
  "read_exact os k w r n = Ret (w', r', res) \<Longrightarrow> br_stream r' = br_stream r"
proof (induction k arbitrary: w r n w' r' res)
  case (Suc k)
  obtain w1 r1 res1 where br: "br_read os w r n = (w1, r1, res1)" by (cases "br_read os w r n")
  from Suc.prems br show ?case
    by (rule read_exact_RetE) (use br_read_stream [OF br] in \<open>auto dest: Suc.IH\<close>)
qed simp

text \<open>A successful \<^verbatim>\<open>read_exact\<close> of a request below the buffer size fills it completely.\<close>

lemma read_exact_length:
  "read_exact os k w r n = Ret (w', r', Inr bs) \<Longrightarrow> n < REC_BUF_SZ \<Longrightarrow> length bs = n"
proof (induction k arbitrary: w r n w' r' bs)
  case (Suc k)
  obtain w1 r1 res1 where br: "br_read os w r n = (w1, r1, res1)" by (cases "br_read os w r n")
  from Suc.prems(1) br show ?case
  proof (cases rule: read_exact_RetE)
    case (More cs res2)
    then obtain ds where "res2 = Inr ds" "bs = cs @ ds" by (cases res2) auto
    with More br_read_length [of os w r n w1 r1 cs] br Suc.prems(2) Suc.IH show ?thesis
      by fastforce
  qed (use Suc.prems Suc.IH in auto)
qed simp

context io_frame
begin

lemma E_br_read: "br_read os w r n = (w', r', res) \<Longrightarrow> E w w'"
  by (auto simp: br_read_def E_refl dest: E_read split: prod.splits sum.splits if_splits)

lemma E_read_exact: "read_exact os k w r n = Ret (w', r', res) \<Longrightarrow> E w w'"
proof (induction k arbitrary: w r n w' r' res)
  case (Suc k)
  obtain w1 r1 res1 where br: "br_read os w r n = (w1, r1, res1)" by (cases "br_read os w r n")
  note E1 = E_br_read [OF br]
  from Suc.prems br show ?case
    by (rule read_exact_RetE) (auto intro: E_refl E1 E_trans [OF E1] Suc.IH)
qed simp

end

section \<open>Writing\<close>

primrec write_all ::
  "'w os \<Rightarrow> nat \<Rightarrow> 'w \<Rightarrow> fd \<Rightarrow> bytes \<Rightarrow> ('w \<times> (io_error + unit)) outcome" where
  "write_all os 0 w s bs = Spin"
| "write_all os (Suc k) w s bs =
     (if bs = [] then Ret (w, Inr ())
      else case os_write os w s bs of
          (w', Inl e) \<Rightarrow> (if e = Interrupted then write_all os k w' s bs else Ret (w', Inl e))
        | (w', Inr n) \<Rightarrow>
            (if n = 0 then Ret (w', Inl WriteZero) else write_all os k w' s (drop n bs)))"

lemma write_all_no_panic [simp]:
  "write_all os k w s bs \<noteq> Panic p" "write_all os k w s bs \<noteq> Undefined"
  by (induction k arbitrary: w bs) (auto split: prod.splits sum.splits)

text \<open>
  \<open>sink_law os sink\<close> is the contract of a stream socket as seen by the peer: a write hands
  over a prefix of the buffer, of the length it reports, and nothing when it fails.
  \<open>accepts_all\<close> is a socket whose send buffer never fills up.
\<close>

definition sink_law :: "'w os \<Rightarrow> ('w \<Rightarrow> bytes) \<Rightarrow> bool" where
  "sink_law os sink \<longleftrightarrow>
     (\<forall>w s bs w' n. os_write os w s bs = (w', Inr n) \<longrightarrow>
        n \<le> length bs \<and> sink w' = sink w @ take n bs) \<and>
     (\<forall>w s bs w' e. os_write os w s bs = (w', Inl e) \<longrightarrow> sink w' = sink w)"

definition accepts_all :: "'w os \<Rightarrow> ('w \<Rightarrow> bytes) \<Rightarrow> bool" where
  "accepts_all os sink \<longleftrightarrow>
     (\<forall>w s bs. bs \<noteq> [] \<longrightarrow>
        (\<exists>w'. os_write os w s bs = (w', Inr (length bs)) \<and> sink w' = sink w @ bs))"

lemma write_all_prefix:
  assumes "sink_law os sink"
  shows "write_all os k w s bs = Ret (w', res) \<Longrightarrow>
    \<exists>n \<le> length bs. sink w' = sink w @ take n bs \<and> (res = Inr () \<longleftrightarrow> n = length bs)"
proof (induction k arbitrary: w bs)
  case (Suc k)
  show ?case
  proof (cases "bs = []")
    case False
    obtain w1 r1 where wr: "os_write os w s bs = (w1, r1)" by (cases "os_write os w s bs")
    show ?thesis
    proof (cases r1)
      case (Inl e)
      have s1: "sink w1 = sink w" using assms wr Inl unfolding sink_law_def by blast
      show ?thesis
      proof (cases "e = Interrupted")
        case True
        with Suc.prems False wr Inl have "write_all os k w1 s bs = Ret (w', res)" by simp
        from Suc.IH [OF this] s1 show ?thesis by simp
      next
        case e: False
        with Suc.prems False wr Inl have "w' = w1" "res = Inl e" by auto
        with s1 False show ?thesis by (intro exI [of _ 0]) simp
      qed
    next
      case (Inr n)
      have n: "n \<le> length bs" and s1: "sink w1 = sink w @ take n bs"
        using assms wr Inr by (auto simp: sink_law_def)
      show ?thesis
      proof (cases "n = 0")
        case True
        with Suc.prems False wr Inr s1 show ?thesis by (intro exI [of _ 0]) auto
      next
        case n0: False
        with Suc.prems False wr Inr have "write_all os k w1 s (drop n bs) = Ret (w', res)" by simp
        from Suc.IH [OF this] obtain m where m: "m \<le> length bs - n"
          "sink w' = sink w1 @ take m (drop n bs)" "res = Inr () \<longleftrightarrow> m = length bs - n"
          by auto
        with n s1 show ?thesis by (intro exI [of _ "n + m"]) (auto simp: take_add)
      qed
    qed
  qed (use Suc.prems in simp)
qed simp

lemma write_all_accepts:
  assumes "accepts_all os sink" and "2 \<le> k"
  shows "\<exists>w'. write_all os k w s bs = Ret (w', Inr ()) \<and> sink w' = sink w @ bs"
proof -
  obtain j where k: "k = Suc (Suc j)"
    using assms(2) by (metis Suc_le_D numeral_2_eq_2 Suc_le_mono)
  show ?thesis
  proof (cases "bs = []")
    case False
    with assms(1) obtain w' where "os_write os w s bs = (w', Inr (length bs))" "sink w' = sink w @ bs"
      unfolding accepts_all_def by blast
    with False show ?thesis by (simp add: k)
  qed (simp add: k)
qed

context io_frame
begin

lemma E_write_all: "write_all os k w s bs = Ret (w', res) \<Longrightarrow> E w w'"
proof (induction k arbitrary: w bs)
  case (Suc k)
  obtain w1 r1 where wr: "os_write os w s bs = (w1, r1)" by (cases "os_write os w s bs")
  note E1 = E_write [OF wr]
  show ?case
    using Suc.prems wr
    by (cases r1) (auto intro: E_refl E1 E_trans [OF E1] Suc.IH split: if_splits)
qed simp

end

section \<open>Progress\<close>

text \<open>
  \<open>finite_input os budget\<close>: the peer has a bounded amount of input in store and interrupts only
  so often. A read yields no more than was asked for, and what it yields comes out of the
  budget; a retried call costs at least one. Under this law the retry loops end, with fuel above
  the budget, the bytes already buffered included.
\<close>

definition finite_input :: "'w os \<Rightarrow> ('w \<Rightarrow> nat) \<Rightarrow> bool" where
  "finite_input os budget \<longleftrightarrow>
     env_frame os (\<lambda>w w'. budget w' \<le> budget w) \<and>
     (\<forall>w s n w' bs. os_read os w s n = (w', Inr bs) \<longrightarrow>
        length bs \<le> n \<and> budget w' + length bs \<le> budget w) \<and>
     (\<forall>w s n w'. os_read os w s n = (w', Inl Interrupted) \<longrightarrow> budget w' < budget w) \<and>
     (\<forall>w s bs w' n. os_write os w s bs = (w', Inr n) \<longrightarrow> n \<le> length bs) \<and>
     (\<forall>w s bs w'. os_write os w s bs = (w', Inl Interrupted) \<longrightarrow> budget w' < budget w)"

lemma finite_input_frame: "finite_input os budget \<Longrightarrow> env_frame os (\<lambda>w w'. budget w' \<le> budget w)"
  by (simp add: finite_input_def)

lemma finite_input_read:
  assumes "finite_input os budget" and "os_read os w s n = (w', res)"
  shows "budget w' \<le> budget w" and "res = Inr bs \<Longrightarrow> length bs \<le> n \<and> budget w' + length bs \<le> budget w"
    and "res = Inl Interrupted \<Longrightarrow> budget w' < budget w"
  using io_frame.E_read [OF env_frame_io [OF finite_input_frame [OF assms(1)]] assms(2)] assms
  unfolding finite_input_def by blast+

lemma br_read_budget:
  assumes "finite_input os budget" and "br_read os w r n = (w', r', res)"
  shows "budget w' + length (br_buf r') + (case res of Inl _ \<Rightarrow> 0 | Inr bs \<Rightarrow> length bs) \<le>
      budget w + length (br_buf r)"
    and "res = Inl Interrupted \<Longrightarrow> budget w' + length (br_buf r') < budget w + length (br_buf r)"
proof -
  have "budget w' + length (br_buf r') + (case res of Inl _ \<Rightarrow> 0 | Inr bs \<Rightarrow> length bs) \<le>
      budget w + length (br_buf r) \<and>
    (res = Inl Interrupted \<longrightarrow> budget w' + length (br_buf r') < budget w + length (br_buf r))"
  proof (cases "br_buf r = []")
    case True
    obtain w1 res1 where rd: "os_read os w (br_stream r) (max REC_BUF_SZ n) = (w1, res1)"
      by (cases "os_read os w (br_stream r) (max REC_BUF_SZ n)")
    note law = finite_input_read [OF assms(1) rd]
    show ?thesis
    proof (cases res1)
      case (Inl e)
      with assms(2) True rd law show ?thesis
        by (auto simp: br_read_def max_def split: if_splits prod.splits)
    next
      case (Inr bs)
      with assms(2) True rd law(2) [OF Inr] show ?thesis
        by (auto simp: br_read_def max_def min_def split: if_splits prod.splits)
    qed
  next
    case False
    with assms(2) show ?thesis by (auto simp: br_read_def)
  qed
  then show "budget w' + length (br_buf r') + (case res of Inl _ \<Rightarrow> 0 | Inr bs \<Rightarrow> length bs) \<le>
      budget w + length (br_buf r)"
    and "res = Inl Interrupted \<Longrightarrow> budget w' + length (br_buf r') < budget w + length (br_buf r)"
    by blast+
qed

lemma read_exact_returns:
  assumes law: "finite_input os budget"
  shows "budget w + length (br_buf r) < k \<Longrightarrow> \<exists>w' r' res. read_exact os k w r n = Ret (w', r', res) \<and>
    budget w' + length (br_buf r') + (case res of Inl _ \<Rightarrow> 0 | Inr bs \<Rightarrow> length bs) \<le>
      budget w + length (br_buf r)"
proof (induction k arbitrary: w r n)
  case (Suc k)
  obtain w1 r1 res1 where br: "br_read os w r n = (w1, r1, res1)" by (cases "br_read os w r n")
  note b = br_read_budget [OF law br]
  show ?case
  proof (cases "n = 0")
    case n: False
    show ?thesis
    proof (cases res1)
      case (Inl e)
      show ?thesis
      proof (cases "e = Interrupted")
        case True
        with b(2) Inl Suc.prems Suc.IH [of w1 r1 n] show ?thesis using n br by fastforce
      qed (use n br Inl b(1) in simp)
    next
      case (Inr bs)
      show ?thesis
      proof (cases "bs = []")
        case False
        with b(1) Inr Suc.prems have "budget w1 + length (br_buf r1) < k"
          by (simp flip: length_greater_0_conv)
        from Suc.IH [OF this, of "n - length bs"] obtain w2 r2 res2 where
          "read_exact os k w1 r1 (n - length bs) = Ret (w2, r2, res2)"
          "budget w2 + length (br_buf r2) + (case res2 of Inl _ \<Rightarrow> 0 | Inr bs \<Rightarrow> length bs) \<le>
            budget w1 + length (br_buf r1)" by blast
        with n br Inr False b(1) show ?thesis by (cases res2) auto
      qed (use n br Inr b(1) in simp)
    qed
  qed simp
qed simp

lemma write_all_returns:
  assumes law: "finite_input os budget"
  shows "budget w + length bs < k \<Longrightarrow> \<exists>w' res. write_all os k w s bs = Ret (w', res) \<and> budget w' \<le> budget w"
proof (induction k arbitrary: w bs)
  case (Suc k)
  obtain w1 res where wr: "os_write os w s bs = (w1, res)" by (cases "os_write os w s bs")
  have le: "budget w1 \<le> budget w"
    by (rule io_frame.E_write [OF env_frame_io [OF finite_input_frame [OF law]] wr])
  have less: "res = Inl Interrupted \<Longrightarrow> budget w1 < budget w" and n: "res = Inr n \<Longrightarrow> n \<le> length bs" for n
    using law wr unfolding finite_input_def by blast+
  show ?case
  proof (cases res)
    case (Inl e)
    show ?thesis
    proof (cases "e = Interrupted")
      case True
      with Inl less Suc.prems have "budget w1 + length bs < k" by simp
      from Suc.IH [OF this] True Inl wr le show ?thesis by fastforce
    qed (use Inl le wr in auto)
  next
    case (Inr m)
    have "\<exists>w' res. write_all os k w1 s (drop m bs) = Ret (w', res) \<and> budget w' \<le> budget w1"
      if "m \<noteq> 0" "bs \<noteq> []"
      using that le n [OF Inr] Suc.prems by (intro Suc.IH) (auto simp flip: length_greater_0_conv)
    with Inr le wr show ?thesis by (cases "bs = []"; cases "m = 0") fastforce+
  qed
qed simp

end
