(* ===== verification/Scripted_Env.thy ===== *)
theory Scripted_Env
  imports Rust_IO
begin

text \<open>
  An executable environment: what the socket, the listener and \<^verbatim>\<open>poll\<close> answer is read from a
  script, the channel is a list, a timeout expires once it is armed for no longer than the time
  \<open>sc_elapsed\<close>, and what the tracer sends is recorded. It is used to run the model on concrete
  sessions. An exhausted script answers a read with the end of the stream or \<^verbatim>\<open>WouldBlock\<close>,
  accepts a whole write, and has no client and no event.
\<close>

record script =
  sc_reads :: "(io_error + bytes) list"
  sc_writes :: "(io_error + nat) list"
  sc_sent :: bytes
  sc_chan :: "ChannelMessage list"
  sc_eof :: bool
  sc_elapsed :: duration
  sc_armed :: "(timeout \<times> duration \<times> nat) list"
  sc_accepts :: "fd list"
  sc_polls :: "nat list list"
  sc_udp :: "(bytes \<times> sockaddr) list"
  sc_clock :: system_time

definition idle_script :: script where
  "idle_script =
     \<lparr>sc_reads = [], sc_writes = [], sc_sent = [], sc_chan = [], sc_eof = False,
      sc_elapsed = 0, sc_armed = [], sc_accepts = [], sc_polls = [], sc_udp = [], sc_clock = 0\<rparr>"

definition script_read :: "script \<Rightarrow> fd \<Rightarrow> nat \<Rightarrow> script \<times> (io_error + bytes)" where
  "script_read w s n =
     (case sc_reads w of
        [] \<Rightarrow> (w, if sc_eof w then Inr [] else Inl WouldBlock)
      | Inl e # rs \<Rightarrow> (w\<lparr>sc_reads := rs\<rparr>, Inl e)
      | Inr bs # rs \<Rightarrow>
          (if length bs \<le> n then (w\<lparr>sc_reads := rs\<rparr>, Inr bs)
           else (w\<lparr>sc_reads := Inr (drop n bs) # rs\<rparr>, Inr (take n bs))))"

definition script_write :: "script \<Rightarrow> fd \<Rightarrow> bytes \<Rightarrow> script \<times> (io_error + nat)" where
  "script_write w s bs =
     (case sc_writes w of
        [] \<Rightarrow> (w\<lparr>sc_sent := sc_sent w @ bs\<rparr>, Inr (length bs))
      | Inl e # rs \<Rightarrow> (w\<lparr>sc_writes := rs\<rparr>, Inl e)
      | Inr n # rs \<Rightarrow>
          (w\<lparr>sc_writes := rs, sc_sent := sc_sent w @ take n bs\<rparr>, Inr (min n (length bs))))"

text \<open>A handle that is larger than every pending one, and the timeout that expires next.\<close>

definition fresh_handle :: "script \<Rightarrow> timeout" where
  "fresh_handle w = Suc (sum_list (map fst (sc_armed w)))"

definition script_timer_poll :: "script \<Rightarrow> script \<times> nat option" where
  "script_timer_poll w =
     (case filter (\<lambda>(h, d, i). d \<le> sc_elapsed w) (sc_armed w) of
        [] \<Rightarrow> (w, None)
      | (h, d, i) # _ \<Rightarrow>
          (w\<lparr>sc_armed := filter (\<lambda>(h', d', i'). (h', i') \<noteq> (h, i)) (sc_armed w)\<rparr>, Some i))"

definition script_os :: "script os" where
  "script_os =
     \<lparr>os_tcp_bind = (\<lambda>w port. (w, Some 3)),
      os_local_port = (\<lambda>w l. Some 61455),
      os_accept = (\<lambda>w l. case sc_accepts w of
         [] \<Rightarrow> (w, None) | s # ss \<Rightarrow> (w\<lparr>sc_accepts := ss\<rparr>, Some s)),
      os_try_clone = (\<lambda>w s. (w, Some s)),
      os_drop = (\<lambda>w s. w),
      os_read = script_read,
      os_write = script_write,
      os_udp_bind = (\<lambda>w addr. (w, Some 4)),
      os_send_to = (\<lambda>w s bs addr. w\<lparr>sc_udp := sc_udp w @ [(bs, addr)]\<rparr>),
      os_poll_new = (\<lambda>w. (w, True)),
      os_register = (\<lambda>w src token. (w, True)),
      os_deregister = (\<lambda>w s. w),
      os_poll = (\<lambda>w. case sc_polls w of
         [] \<Rightarrow> (w, Some []) | evs # rest \<Rightarrow> (w\<lparr>sc_polls := rest\<rparr>, Some evs)),
      os_set_timeout = (\<lambda>w d i.
         (w\<lparr>sc_armed := (fresh_handle w, d, i) # sc_armed w\<rparr>, fresh_handle w)),
      os_cancel_timeout = (\<lambda>w t. w\<lparr>sc_armed := filter (\<lambda>(h, d, i). h \<noteq> t) (sc_armed w)\<rparr>),
      os_timer_poll = script_timer_poll,
      os_chan_send = (\<lambda>w m. (w\<lparr>sc_chan := sc_chan w @ [m]\<rparr>, True)),
      os_try_recv = (\<lambda>w. case sc_chan w of
         [] \<Rightarrow> (w, None) | m # ms \<Rightarrow> (w\<lparr>sc_chan := ms\<rparr>, Some m)),
      os_now = (\<lambda>w. (w, sc_clock w)),
      os_parse_addr = (\<lambda>s. if s = [] then None else Some (SocketAddrV4 0xE1000001 64042))\<rparr>"

text \<open>The same environment with a peer that always has room for what is written.\<close>

definition open_os :: "script os" where
  "open_os = script_os\<lparr>os_write := (\<lambda>w s bs. (w\<lparr>sc_sent := sc_sent w @ bs\<rparr>, Inr (length bs)))\<rparr>"

section \<open>Laws of the scripted environment\<close>

lemma script_os_ops [simp]:
  "os_tcp_bind script_os = (\<lambda>w port. (w, Some 3))"
  "os_local_port script_os = (\<lambda>w l. Some 61455)"
  "os_accept script_os = (\<lambda>w l. case sc_accepts w of [] \<Rightarrow> (w, None) | s # ss \<Rightarrow> (w\<lparr>sc_accepts := ss\<rparr>, Some s))"
  "os_try_clone script_os = (\<lambda>w s. (w, Some s))"
  "os_drop script_os = (\<lambda>w s. w)"
  "os_read script_os = script_read"
  "os_write script_os = script_write"
  "os_udp_bind script_os = (\<lambda>w addr. (w, Some 4))"
  "os_send_to script_os = (\<lambda>w s bs addr. w\<lparr>sc_udp := sc_udp w @ [(bs, addr)]\<rparr>)"
  "os_poll_new script_os = (\<lambda>w. (w, True))"
  "os_register script_os = (\<lambda>w src token. (w, True))"
  "os_deregister script_os = (\<lambda>w s. w)"
  "os_poll script_os = (\<lambda>w. case sc_polls w of [] \<Rightarrow> (w, Some []) | evs # rest \<Rightarrow> (w\<lparr>sc_polls := rest\<rparr>, Some evs))"
  "os_set_timeout script_os = (\<lambda>w d i. (w\<lparr>sc_armed := (fresh_handle w, d, i) # sc_armed w\<rparr>, fresh_handle w))"
  "os_cancel_timeout script_os = (\<lambda>w t. w\<lparr>sc_armed := filter (\<lambda>(h, d, i). h \<noteq> t) (sc_armed w)\<rparr>)"
  "os_timer_poll script_os = script_timer_poll"
  "os_chan_send script_os = (\<lambda>w m. (w\<lparr>sc_chan := sc_chan w @ [m]\<rparr>, True))"
  "os_try_recv script_os = (\<lambda>w. case sc_chan w of [] \<Rightarrow> (w, None) | m # ms \<Rightarrow> (w\<lparr>sc_chan := ms\<rparr>, Some m))"
  "os_now script_os = (\<lambda>w. (w, sc_clock w))"
  "os_parse_addr script_os = (\<lambda>s. if s = [] then None else Some (SocketAddrV4 0xE1000001 64042))"
  by (simp_all add: script_os_def)

lemma open_os_ops [simp]:
  "os_tcp_bind open_os = os_tcp_bind script_os"
  "os_local_port open_os = os_local_port script_os"
  "os_accept open_os = os_accept script_os"
  "os_try_clone open_os = os_try_clone script_os"
  "os_drop open_os = os_drop script_os"
  "os_read open_os = os_read script_os"
  "os_write open_os = (\<lambda>w s bs. (w\<lparr>sc_sent := sc_sent w @ bs\<rparr>, Inr (length bs)))"
  "os_udp_bind open_os = os_udp_bind script_os"
  "os_send_to open_os = os_send_to script_os"
  "os_poll_new open_os = os_poll_new script_os"
  "os_register open_os = os_register script_os"
  "os_deregister open_os = os_deregister script_os"
  "os_poll open_os = os_poll script_os"
  "os_set_timeout open_os = os_set_timeout script_os"
  "os_cancel_timeout open_os = os_cancel_timeout script_os"
  "os_timer_poll open_os = os_timer_poll script_os"
  "os_chan_send open_os = os_chan_send script_os"
  "os_try_recv open_os = os_try_recv script_os"
  "os_now open_os = os_now script_os"
  "os_parse_addr open_os = os_parse_addr script_os"
  by (simp_all add: open_os_def)

lemma script_read_simps [simp]:
  "sc_reads w = [] \<Longrightarrow> script_read w s n = (w, if sc_eof w then Inr [] else Inl WouldBlock)"
  "script_read (w\<lparr>sc_reads := Inl e # rs\<rparr>) s n = (w\<lparr>sc_reads := rs\<rparr>, Inl e)"
  "length bs \<le> n \<Longrightarrow> script_read (w\<lparr>sc_reads := Inr bs # rs\<rparr>) s n = (w\<lparr>sc_reads := rs\<rparr>, Inr bs)"
  by (simp_all add: script_read_def)

lemma idle_script_simps [simp]:
  "sc_reads idle_script = []" "sc_writes idle_script = []" "sc_sent idle_script = []"
  "sc_chan idle_script = []" "\<not> sc_eof idle_script" "sc_armed idle_script = []"
  "sc_accepts idle_script = []" "sc_polls idle_script = []" "sc_udp idle_script = []"
  "idle_script\<lparr>sc_reads := []\<rparr> = idle_script" "idle_script\<lparr>sc_chan := []\<rparr> = idle_script"
  "idle_script\<lparr>sc_writes := []\<rparr> = idle_script" "sc_elapsed idle_script = 0"
  by (simp_all add: idle_script_def)

lemma open_os_accepts_all: "accepts_all open_os sc_sent"
  by (simp add: accepts_all_def open_os_def)

lemma script_os_sink_law: "sink_law script_os sc_sent"
  by (auto simp: sink_law_def script_os_def script_write_def min_def split: list.splits sum.splits)

text \<open>What a script still holds: the bytes to be read, and the retries.\<close>

definition script_budget :: "script \<Rightarrow> nat" where
  "script_budget w =
     sum_list (map (\<lambda>r. case r of Inl _ \<Rightarrow> 1 | Inr bs \<Rightarrow> length bs) (sc_reads w)) +
     length (sc_writes w)"

lemma script_read_budget:
  assumes "script_read w s n = (w', res)"
  shows "script_budget w' + (case res of Inl _ \<Rightarrow> 0 | Inr bs \<Rightarrow> length bs) \<le> script_budget w"
    and "res = Inl Interrupted \<Longrightarrow> script_budget w' < script_budget w"
    and "res = Inr bs \<Longrightarrow> length bs \<le> n"
  using assms by (auto simp: script_read_def script_budget_def split: list.splits sum.splits if_splits)

lemma script_write_budget:
  assumes "script_write w s bs = (w', res)"
  shows "script_budget w' \<le> script_budget w"
    and "res = Inl Interrupted \<Longrightarrow> script_budget w' < script_budget w"
    and "res = Inr n \<Longrightarrow> n \<le> length bs"
  using assms by (auto simp: script_write_def script_budget_def split: list.splits sum.splits)

lemma script_timer_poll_budget: "script_timer_poll w = (w', i) \<Longrightarrow> script_budget w' = script_budget w"
  by (auto simp: script_timer_poll_def script_budget_def split: list.splits)

lemma script_os_finite_input: "finite_input script_os script_budget"
proof -
  have "env_frame script_os (\<lambda>w w'. script_budget w' \<le> script_budget w)"
    by unfold_locales
      (auto dest: script_read_budget(1) script_write_budget(1) script_timer_poll_budget
        simp: script_budget_def split: list.splits)
  then show ?thesis
    by (auto simp: finite_input_def dest: script_read_budget script_write_budget)
qed

section \<open>A concrete context\<close>

text \<open>A connected client, one registered tracepoint \<open>tp\<close> that is off, one buffered element.\<close>

definition demo_name :: rstring where
  "demo_name = bytes_of ''tp''"

definition demo_element :: BufferElement where
  "demo_element = \<lparr>el_tracepoint = demo_name, el_timestamp = 5, el_data = [1, 2]\<rparr>"

definition demo_cfg :: InitData where
  "demo_cfg =
     \<lparr>hostname = bytes_of ''radio'', process_name = bytes_of ''app'', send_interval = 1000,
      announce_interval = 5000, announce_addr = Some (SocketAddrV4 0xE1000001 64042),
      announce_iface = Some (bytes_of ''127.0.0.1'')\<rparr>"

definition demo_ctx :: "script TracerContext" where
  "demo_ctx =
     \<lparr>world = idle_script, atomics = (\<lambda>a. a = 0), next_cell = 2, app_cfg = demo_cfg,
      buffer = VecDeque [] [demo_element], buffer_occupancy = 12, queue_timeout = Some 9,
      udp_timeout = None, udp_sock = Some 4, listener = 3, connection = Some 7,
      client_connected = 0, tracepoints = \<lparr>hasher = (\<lambda>_. 0), entries = [(demo_name, 1)]\<rparr>,
      sequence_no = 0\<rparr>"

lemma demo_name_eq: "demo_name = [0x74, 0x70]"
  by (simp add: demo_name_def bytes_of_def)

lemma demo_name_ok: "name_ok demo_name"
  by (simp add: demo_name_eq name_ok_def to_lowercase_def ascii_lower_def)

lemma demo_element_ok: "element_ok demo_element"
  using demo_name_ok by (simp add: demo_element_def element_ok_def)

lemma demo_ctx_simps [simp]:
  "connection demo_ctx = Some 7" "client_connected demo_ctx = 0" "world demo_ctx = idle_script"
  "contents (buffer demo_ctx) = [demo_element]" "listener demo_ctx = 3" "next_cell demo_ctx = 2"
  "atomics demo_ctx = (\<lambda>a. a = 0)" "app_cfg demo_ctx = demo_cfg" "udp_sock demo_ctx = Some 4"
  "hm_get (tracepoints demo_ctx) s = (if s = demo_name then Some 1 else None)"
  by (simp_all add: demo_ctx_def contents_def hm_get_def)

lemma demo_tracepoints [simp]:
  "hm_wf (tracepoints demo_ctx)" "hm_values (tracepoints demo_ctx) = [1]"
  "hm_keys (tracepoints demo_ctx) = [demo_name]"
  by (simp_all add: demo_ctx_def hm_wf_def hm_values_def hm_keys_def hm_iter_def)

end
