(* ===== verification/Tracer_Context.thy ===== *)
theory Tracer_Context
  imports Scripted_Env
begin

text \<open>
  The methods of \<^verbatim>\<open>TracerContext\<close> in \<^verbatim>\<open>src/src/lib.rs\<close>: buffering, the two timers, closing a
  connection and registering a tracepoint with the thread. The lemmas give, for each method,
  its effect and its frame.
\<close>

section \<open>Operations\<close>

definition ctx_append :: "'w TracerContext \<Rightarrow> BufferElement \<Rightarrow> 'w TracerContext" where
  "ctx_append c e =
     c\<lparr>buffer_occupancy := buffer_occupancy c + of_nat (el_len e),
       buffer := vd_push_back (buffer c) e\<rparr>"

definition clear_buffer :: "'w TracerContext \<Rightarrow> 'w TracerContext" where
  "clear_buffer c = c\<lparr>buffer := vd_empty, buffer_occupancy := 0\<rparr>"

definition check_start_queue_timer :: "'w os \<Rightarrow> 'w TracerContext \<Rightarrow> 'w TracerContext" where
  "check_start_queue_timer os c =
     (if queue_timeout c = None then
        (case os_set_timeout os (world c) (send_interval (app_cfg c)) QUEUE_TIMEOUT_IDENT of
           (w, t) \<Rightarrow> c\<lparr>world := w, queue_timeout := Some t\<rparr>)
      else c)"

definition check_stop_queue_timer :: "'w os \<Rightarrow> 'w TracerContext \<Rightarrow> 'w TracerContext" where
  "check_stop_queue_timer os c =
     (case queue_timeout c of
        Some t \<Rightarrow> c\<lparr>world := os_cancel_timeout os (world c) t, queue_timeout := None\<rparr>
      | None \<Rightarrow> c\<lparr>queue_timeout := None\<rparr>)"

definition check_start_udp_timer :: "'w os \<Rightarrow> 'w TracerContext \<Rightarrow> 'w TracerContext" where
  "check_start_udp_timer os c =
     (if udp_timeout c = None then
        (case os_set_timeout os (world c) (announce_interval (app_cfg c)) UDP_TIMEOUT_IDENT of
           (w, t) \<Rightarrow> c\<lparr>world := w, udp_timeout := Some t\<rparr>)
      else c)"

definition check_stop_udp_timer :: "'w os \<Rightarrow> 'w TracerContext \<Rightarrow> 'w TracerContext" where
  "check_stop_udp_timer os c =
     (case udp_timeout c of
        Some t \<Rightarrow> c\<lparr>world := os_cancel_timeout os (world c) t, udp_timeout := None\<rparr>
      | None \<Rightarrow> c\<lparr>udp_timeout := None\<rparr>)"

definition disable_all :: "cell list \<Rightarrow> ('w, 'z) machine_scheme \<Rightarrow> ('w, 'z) machine_scheme" where
  "disable_all cells c = fold (\<lambda>a m. store a False m) cells c"

definition close_and_clean_connection ::
  "'w os \<Rightarrow> 'w TracerContext \<Rightarrow> 'w TracerContext outcome" where
  "close_and_clean_connection os c0 =
     (let c1 = store (client_connected c0) False c0
      in obind (unwrap ConnectionIsNone (connection c1)) (\<lambda>s.
        let c2 = (case os_try_clone os (world c1) s of
                    (w, Some tmp) \<Rightarrow> c1\<lparr>world := os_drop os (os_deregister os w tmp) tmp\<rparr>
                  | (w, None) \<Rightarrow> c1\<lparr>world := w\<rparr>);
            c3 = c2\<lparr>world := os_drop os (world c2) s, connection := None\<rparr>;
            c4 = check_stop_queue_timer os c3;
            c5 = disable_all (hm_values (tracepoints c4)) c4
        in Ret (check_start_udp_timer os c5)))"

definition insert_tracepoint :: "'w TracerContext \<Rightarrow> Tracepoint \<Rightarrow> 'w TracerContext" where
  "insert_tracepoint c t =
     c\<lparr>tracepoints := hm_insert (tracepoints c) (tp_name t) (tp_state t)\<rparr>"

section \<open>Frames\<close>

lemma machine_store_simps [simp]:
  "world (store a b m) = world m" "next_cell (store a b m) = next_cell m"
  "atomics (store a b m) = (atomics m)(a := b)" "machine.more (store a b m) = machine.more m"
  by (simp_all add: store_def)

lemma ctx_store_simps [simp]:
  "app_cfg (store a b c) = app_cfg c" "buffer (store a b c) = buffer c"
  "buffer_occupancy (store a b c) = buffer_occupancy c"
  "queue_timeout (store a b c) = queue_timeout c" "udp_timeout (store a b c) = udp_timeout c"
  "udp_sock (store a b c) = udp_sock c" "listener (store a b c) = listener c"
  "connection (store a b c) = connection c" "client_connected (store a b c) = client_connected c"
  "tracepoints (store a b c) = tracepoints c" "sequence_no (store a b c) = sequence_no c"
  by (simp_all add: store_def)

lemma store_world: "(store a b (c\<lparr>world := w\<rparr>))\<lparr>world := world c\<rparr> = store a b c"
  by (cases c) (simp add: store_def)

lemma disable_all_eq:
  "disable_all cells c = c\<lparr>atomics := (\<lambda>a. if a \<in> set cells then False else atomics c a)\<rparr>"
proof (induction cells arbitrary: c)
  case Nil
  show ?case by (simp add: disable_all_def)
next
  case (Cons a cells)
  have "disable_all (a # cells) c = disable_all cells (store a False c)"
    by (simp add: disable_all_def)
  also have "\<dots> = c\<lparr>atomics := (\<lambda>b. if b \<in> set (a # cells) then False else atomics c b)\<rparr>"
    by (auto simp: Cons.IH store_def fun_eq_iff intro!: machine.fold_congs)
  finally show ?case .
qed

text \<open>
  Each method changes the fields named in its equation only; the equations are the rewrite
  rules the handlers are analysed with.
\<close>

lemma check_start_queue_timer_frame [frame_simps]:
  "atomics (check_start_queue_timer os c) = atomics c"
  "next_cell (check_start_queue_timer os c) = next_cell c"
  "app_cfg (check_start_queue_timer os c) = app_cfg c"
  "buffer (check_start_queue_timer os c) = buffer c"
  "buffer_occupancy (check_start_queue_timer os c) = buffer_occupancy c"
  "udp_timeout (check_start_queue_timer os c) = udp_timeout c"
  "udp_sock (check_start_queue_timer os c) = udp_sock c"
  "listener (check_start_queue_timer os c) = listener c"
  "connection (check_start_queue_timer os c) = connection c"
  "client_connected (check_start_queue_timer os c) = client_connected c"
  "tracepoints (check_start_queue_timer os c) = tracepoints c"
  "sequence_no (check_start_queue_timer os c) = sequence_no c"
  by (simp_all add: check_start_queue_timer_def split: prod.split)

lemma check_stop_queue_timer_frame [frame_simps]:
  "atomics (check_stop_queue_timer os c) = atomics c"
  "next_cell (check_stop_queue_timer os c) = next_cell c"
  "app_cfg (check_stop_queue_timer os c) = app_cfg c"
  "buffer (check_stop_queue_timer os c) = buffer c"
  "buffer_occupancy (check_stop_queue_timer os c) = buffer_occupancy c"
  "queue_timeout (check_stop_queue_timer os c) = None"
  "udp_timeout (check_stop_queue_timer os c) = udp_timeout c"
  "udp_sock (check_stop_queue_timer os c) = udp_sock c"
  "listener (check_stop_queue_timer os c) = listener c"
  "connection (check_stop_queue_timer os c) = connection c"
  "client_connected (check_stop_queue_timer os c) = client_connected c"
  "tracepoints (check_stop_queue_timer os c) = tracepoints c"
  "sequence_no (check_stop_queue_timer os c) = sequence_no c"
  by (simp_all add: check_stop_queue_timer_def split: option.split)

lemma check_start_udp_timer_frame [frame_simps]:
  "atomics (check_start_udp_timer os c) = atomics c"
  "next_cell (check_start_udp_timer os c) = next_cell c"
  "app_cfg (check_start_udp_timer os c) = app_cfg c"
  "buffer (check_start_udp_timer os c) = buffer c"
  "buffer_occupancy (check_start_udp_timer os c) = buffer_occupancy c"
  "queue_timeout (check_start_udp_timer os c) = queue_timeout c"
  "\<exists>t. udp_timeout (check_start_udp_timer os c) = Some t"
  "udp_sock (check_start_udp_timer os c) = udp_sock c"
  "listener (check_start_udp_timer os c) = listener c"
  "connection (check_start_udp_timer os c) = connection c"
  "client_connected (check_start_udp_timer os c) = client_connected c"
  "tracepoints (check_start_udp_timer os c) = tracepoints c"
  "sequence_no (check_start_udp_timer os c) = sequence_no c"
  by (simp_all add: check_start_udp_timer_def split: prod.split)

lemma check_stop_udp_timer_frame [frame_simps]:
  "atomics (check_stop_udp_timer os c) = atomics c"
  "next_cell (check_stop_udp_timer os c) = next_cell c"
  "app_cfg (check_stop_udp_timer os c) = app_cfg c"
  "buffer (check_stop_udp_timer os c) = buffer c"
  "buffer_occupancy (check_stop_udp_timer os c) = buffer_occupancy c"
  "queue_timeout (check_stop_udp_timer os c) = queue_timeout c"
  "udp_timeout (check_stop_udp_timer os c) = None"
  "udp_sock (check_stop_udp_timer os c) = udp_sock c"
  "listener (check_stop_udp_timer os c) = listener c"
  "connection (check_stop_udp_timer os c) = connection c"
  "client_connected (check_stop_udp_timer os c) = client_connected c"
  "tracepoints (check_stop_udp_timer os c) = tracepoints c"
  "sequence_no (check_stop_udp_timer os c) = sequence_no c"
  by (simp_all add: check_stop_udp_timer_def split: option.split)

lemma ctx_append_frame [frame_simps]:
  "world (ctx_append c e) = world c" "atomics (ctx_append c e) = atomics c"
  "next_cell (ctx_append c e) = next_cell c" "app_cfg (ctx_append c e) = app_cfg c"
  "contents (buffer (ctx_append c e)) = contents (buffer c) @ [e]"
  "buffer_occupancy (ctx_append c e) = buffer_occupancy c + of_nat (el_len e)"
  "queue_timeout (ctx_append c e) = queue_timeout c"
  "udp_timeout (ctx_append c e) = udp_timeout c" "udp_sock (ctx_append c e) = udp_sock c"
  "listener (ctx_append c e) = listener c" "connection (ctx_append c e) = connection c"
  "client_connected (ctx_append c e) = client_connected c"
  "tracepoints (ctx_append c e) = tracepoints c" "sequence_no (ctx_append c e) = sequence_no c"
  by (simp_all add: ctx_append_def)

lemma insert_tracepoint_frame [frame_simps]:
  "world (insert_tracepoint c t) = world c" "atomics (insert_tracepoint c t) = atomics c"
  "next_cell (insert_tracepoint c t) = next_cell c" "app_cfg (insert_tracepoint c t) = app_cfg c"
  "buffer (insert_tracepoint c t) = buffer c"
  "buffer_occupancy (insert_tracepoint c t) = buffer_occupancy c"
  "queue_timeout (insert_tracepoint c t) = queue_timeout c"
  "udp_timeout (insert_tracepoint c t) = udp_timeout c"
  "udp_sock (insert_tracepoint c t) = udp_sock c" "listener (insert_tracepoint c t) = listener c"
  "connection (insert_tracepoint c t) = connection c"
  "client_connected (insert_tracepoint c t) = client_connected c"
  "tracepoints (insert_tracepoint c t) = hm_insert (tracepoints c) (tp_name t) (tp_state t)"
  "sequence_no (insert_tracepoint c t) = sequence_no c"
  by (simp_all add: insert_tracepoint_def)

section \<open>Closing a connection\<close>

lemma close_panic_iff:
  "close_and_clean_connection os c = Panic p \<longleftrightarrow> connection c = None \<and> p = ConnectionIsNone"
  by (cases "connection c") (auto simp: close_and_clean_connection_def Let_def)

lemma close_returns: "connection c \<noteq> None \<Longrightarrow> \<exists>c'. close_and_clean_connection os c = Ret c'"
  by (auto simp: close_and_clean_connection_def Let_def)

lemma close_not_spin [simp]:
  "close_and_clean_connection os c \<noteq> Spin" "close_and_clean_connection os c \<noteq> Undefined"
  by (cases "connection c"; simp add: close_and_clean_connection_def Let_def)+

lemma close_effect:
  assumes "close_and_clean_connection os c = Ret c'"
  shows "connection c' = None" and "queue_timeout c' = None" and "udp_timeout c' \<noteq> None"
    and "atomics c' = (\<lambda>a. if a \<in> set (hm_values (tracepoints c)) \<or> a = client_connected c
                          then False else atomics c a)"
    and "buffer c' = buffer c" and "buffer_occupancy c' = buffer_occupancy c"
    and "app_cfg c' = app_cfg c" and "udp_sock c' = udp_sock c" and "listener c' = listener c"
    and "client_connected c' = client_connected c" and "tracepoints c' = tracepoints c"
    and "sequence_no c' = sequence_no c" and "next_cell c' = next_cell c"
    and "connection c \<noteq> None"
  using assms
  by (auto simp: close_and_clean_connection_def Let_def outcome_simps frame_simps disable_all_eq
      split: prod.splits option.splits)

context env_frame
begin

lemma E_timers:
  "E (world c) (world (check_start_queue_timer os c))"
  "E (world c) (world (check_stop_queue_timer os c))"
  "E (world c) (world (check_start_udp_timer os c))"
  "E (world c) (world (check_stop_udp_timer os c))"
  by (auto simp: check_start_queue_timer_def check_stop_queue_timer_def check_start_udp_timer_def
      check_stop_udp_timer_def E_refl E_cancel_timeout dest: E_set_timeout
      split: prod.splits option.splits)

lemma E_close:
  assumes "close_and_clean_connection os c = Ret c'"
  shows "E (world c) (world c')"
proof -
  obtain s where s: "connection c = Some s" using close_effect(14) [OF assms] by auto
  obtain w t where t: "os_try_clone os (world c) s = (w, t)" by (cases "os_try_clone os (world c) s")
  define c2 where "c2 = (case t of
      Some tmp \<Rightarrow> (store (client_connected c) False c)\<lparr>world := os_drop os (os_deregister os w tmp) tmp\<rparr>
    | None \<Rightarrow> (store (client_connected c) False c)\<lparr>world := w\<rparr>)"
  define c3 where "c3 = c2\<lparr>world := os_drop os (world c2) s, connection := None\<rparr>"
  define c5 where "c5 = disable_all (hm_values (tracepoints (check_stop_queue_timer os c3)))
      (check_stop_queue_timer os c3)"
  have c': "c' = check_start_udp_timer os c5"
    using assms s t
    by (simp add: close_and_clean_connection_def Let_def c2_def c3_def c5_def split: option.splits)
  have "E (world c) (world c2)"
    by (cases t) (auto simp: c2_def intro: E_try_clone [OF t]
        E_trans [OF E_try_clone [OF t] E_trans [OF E_deregister E_drop]])
  moreover have "E (world c2) (world c3)" by (simp add: c3_def E_drop)
  moreover have "E (world c3) (world c5)" by (simp add: c5_def disable_all_eq E_timers)
  ultimately show ?thesis unfolding c' by (blast intro: E_trans E_timers)
qed

end

text \<open>In the scripted environment, closing touches the armed timeouts only.\<close>

lemma script_timers:
  "\<exists>X. world (check_stop_queue_timer script_os c) = (world c)\<lparr>sc_armed := X\<rparr>"
  "\<exists>X. world (check_start_udp_timer script_os c) = (world c)\<lparr>sc_armed := X\<rparr>"
  by (auto simp: check_stop_queue_timer_def check_start_udp_timer_def split: option.splits
      intro: exI [of _ "sc_armed (world c)"])

lemma open_timers:
  "check_stop_queue_timer open_os = check_stop_queue_timer script_os"
  "check_start_udp_timer open_os = check_start_udp_timer script_os"
  by (simp_all add: check_stop_queue_timer_def check_start_udp_timer_def fun_eq_iff split: option.split)

lemma close_open_os: "close_and_clean_connection open_os = close_and_clean_connection script_os"
  by (simp add: close_and_clean_connection_def open_timers fun_eq_iff)

lemma script_close_world:
  assumes "close_and_clean_connection script_os c = Ret d"
  shows "\<exists>X. world d = (world c)\<lparr>sc_armed := X\<rparr>"
proof -
  obtain s where s: "connection c = Some s" using close_effect(14) [OF assms] by auto
  let ?c3 = "(store (client_connected c) False c)\<lparr>connection := None\<rparr>"
  let ?c4 = "check_stop_queue_timer script_os ?c3"
  have "d = check_start_udp_timer script_os (disable_all (hm_values (tracepoints ?c4)) ?c4)"
    using assms s by (simp add: close_and_clean_connection_def Let_def store_def)
  moreover obtain X where "world ?c4 = (world ?c3)\<lparr>sc_armed := X\<rparr>" using script_timers(1) by blast
  ultimately show ?thesis
    using script_timers(2) [of "disable_all (hm_values (tracepoints ?c4)) ?c4"]
    by (auto simp: disable_all_eq)
qed

section \<open>Properties\<close>

text \<open>
  C6. Closing a connection returns, and afterwards the application sees a disconnected tracer:
  there is no connection, the shared flag and every registered tracepoint are off, and no
  other cell has changed. The queue timer is stopped, the announcement timer runs, and the
  buffered elements are kept.
\<close>

theorem close_disables_everything:
  assumes "connection c \<noteq> None" and "hm_wf (tracepoints c)"
  shows "\<exists>c'. close_and_clean_connection os c = Ret c' \<and>
    connection c' = None \<and> \<not> atomics c' (client_connected c') \<and>
    (\<forall>s a. hm_get (tracepoints c') s = Some a \<longrightarrow> \<not> atomics c' a) \<and>
    (\<forall>a. a \<noteq> client_connected c \<longrightarrow> a \<notin> ran (hm_get (tracepoints c)) \<longrightarrow> atomics c' a = atomics c a) \<and>
    queue_timeout c' = None \<and> udp_timeout c' \<noteq> None \<and> buffer c' = buffer c \<and>
    tracepoints c' = tracepoints c"
proof -
  obtain c' where c': "close_and_clean_connection os c = Ret c'" using close_returns [OF assms(1)] by blast
  have vals: "set (hm_values (tracepoints c)) = ran (hm_get (tracepoints c))"
    by (rule hm.values_ran [OF assms(2)])
  show ?thesis
    by (rule exI [of _ c']) (auto simp: c' close_effect [OF c'] vals ranI)
qed

theorem close_disables_everything_witness:
  "\<exists>c'. close_and_clean_connection script_os demo_ctx = Ret c' \<and>
    connection c' = None \<and> \<not> atomics c' (client_connected c') \<and>
    (\<forall>s a. hm_get (tracepoints c') s = Some a \<longrightarrow> \<not> atomics c' a) \<and>
    (\<forall>a. a \<noteq> client_connected demo_ctx \<longrightarrow> a \<notin> ran (hm_get (tracepoints demo_ctx)) \<longrightarrow>
      atomics c' a = atomics demo_ctx a) \<and>
    queue_timeout c' = None \<and> udp_timeout c' \<noteq> None \<and> buffer c' = buffer demo_ctx \<and>
    tracepoints c' = tracepoints demo_ctx"
  by (rule close_disables_everything) simp_all

end
