(* ===== verification/Tcp_Handler.thy ===== *)
theory Tcp_Handler
  imports Tcp_Wire Tracer_Context
begin

text \<open>
  The connection handling of \<^verbatim>\<open>src/src/tcp_handler.rs\<close>: binding the listener, accepting a client,
  reading and executing its requests, and sending tracepoint lists and trace data. Every loop
  takes fuel; \<open>k\<close> bounds the retries of a single read or write.
\<close>

section \<open>Listening and accepting\<close>

fun bind_first :: "'w os \<Rightarrow> 'w \<Rightarrow> u16 list \<Rightarrow> 'w \<times> fd option" where
  "bind_first os w [] = (w, None)"
| "bind_first os w (port # ports) =
     (case os_tcp_bind os w port of
        (w', Some l) \<Rightarrow> (w', Some l)
      | (w', None) \<Rightarrow> bind_first os w' ports)"

text \<open>\<^verbatim>\<open>61455u16..u16::max_value()\<close>, which leaves out the last port.\<close>

definition listen_ports :: "u16 list" where
  "listen_ports = map of_nat [61455..<65535]"

definition tcp_init :: "'w os \<Rightarrow> 'w \<Rightarrow> 'w \<times> fd option" where
  "tcp_init os w = bind_first os w listen_ports"

definition establish_connection :: "'w os \<Rightarrow> 'w TracerContext \<Rightarrow> 'w TracerContext outcome" where
  "establish_connection os c =
     (case os_accept os (world c) (listener c) of
        (w, Some s) \<Rightarrow>
          (case os_try_clone os w s of
             (w1, None) \<Rightarrow> Panic TryCloneFailed
           | (w1, Some temp_con) \<Rightarrow>
               (let c1 = c\<lparr>world := w1, connection := Some s\<rparr>;
                    c2 = store (client_connected c1) True c1
                in case os_register os (world c2) (SocketSource temp_con) CON_DATA of
                     (w2, ok) \<Rightarrow>
                       (if ok then Ret (c2\<lparr>world := os_drop os w2 temp_con\<rparr>)
                        else Panic RegisterFailed)))
      | (w, None) \<Rightarrow> Ret (c\<lparr>world := w\<rparr>))"

section \<open>Sending\<close>

definition send_slices ::
  "'w os \<Rightarrow> nat \<Rightarrow> 'w TracerContext \<Rightarrow> u8 vecdeque \<Rightarrow>
     ('w TracerContext \<times> (io_error + unit)) outcome" where
  "send_slices os k c que =
     (case vd_as_slices que of (first, second) \<Rightarrow>
        let send_buf = first @ second
        in obind (unwrap ConnectionIsNone (connection c)) (\<lambda>s.
             obind (write_all os k (world c) s send_buf) (\<lambda>(w, res).
               let c' = c\<lparr>world := w\<rparr>
               in case res of
                    Inl e \<Rightarrow> (if e = WouldBlock then Ret (c', Inr ()) else Ret (c', Inl e))
                  | Inr _ \<Rightarrow> Ret (c', Inr ()))))"

definition send_tracepoint_list ::
  "'w os \<Rightarrow> nat \<Rightarrow> 'w TracerContext \<Rightarrow> 'w TracerContext outcome" where
  "send_tracepoint_list os k c =
     (let msg = foldl push_name vd_empty (hm_keys (tracepoints c));
          msg = push_front_header msg TracepointListReply
      in obind (send_slices os k c msg) (\<lambda>(c', res).
           case res of
             Inl _ \<Rightarrow> close_and_clean_connection os c'
           | Inr _ \<Rightarrow> Ret c'))"

primrec send_loop ::
  "'w os \<Rightarrow> nat \<Rightarrow> nat \<Rightarrow> 'w TracerContext \<Rightarrow> u8 vecdeque \<Rightarrow> bool \<Rightarrow> 'w TracerContext outcome"
where
  "send_loop os k 0 c que last_was_complete = Spin"
| "send_loop os k (Suc n) c que last_was_complete =
     (case vd_front (buffer c) of
        Some front \<Rightarrow>
          (if el_len front + vd_len que + HEADER_LEN < QUEUE_TOTAL_SIZE then
             obind (unwrap BufferIsEmpty (vd_pop_front (buffer c))) (\<lambda>(e, rest).
               send_loop os k n (c\<lparr>buffer := rest\<rparr>) (encode_append_trace_data que e) False)
           else
             obind (send_slices os k c (push_front_header que TracePush)) (\<lambda>(c', res).
               case res of
                 Inl _ \<Rightarrow> close_and_clean_connection os c'
               | Inr _ \<Rightarrow> send_loop os k n c' vd_empty True))
      | None \<Rightarrow>
          (if \<not> last_was_complete then
             obind (send_slices os k c (push_front_header que TracePush)) (\<lambda>(c', res).
               case res of
                 Inl _ \<Rightarrow> close_and_clean_connection os c'
               | Inr _ \<Rightarrow> Ret c')
           else Ret c))"

definition send_trace_data ::
  "'w os \<Rightarrow> nat \<Rightarrow> 'w TracerContext \<Rightarrow> 'w TracerContext outcome" where
  "send_trace_data os k c = send_loop os k k c vd_empty True"

section \<open>Receiving\<close>

primrec set_loop ::
  "'w os \<Rightarrow> nat \<Rightarrow> nat \<Rightarrow> 'w TracerContext \<Rightarrow> u32 \<Rightarrow> u32 \<Rightarrow> bufreader \<Rightarrow> bool \<Rightarrow>
     ('w TracerContext \<times> bufreader) outcome"
where
  "set_loop os k 0 c i len r state = Spin"
| "set_loop os k (Suc n) c i len r state =
     (if i < len then
        obind (read_exact os k (world c) r 2) (\<lambda>(w, r, res).
          let c = c\<lparr>world := w\<rparr>
          in case res of
               Inl _ \<Rightarrow> obind (close_and_clean_connection os c) (\<lambda>c. Ret (c, r))
             | Inr name_len_arr \<Rightarrow>
                 (let name_len = u16_from_be_bytes name_len_arr;
                      i = i + 2
                  in if of_nat MAX_TRACEPOINT_NAME_LEN < name_len then
                       obind (close_and_clean_connection os c) (\<lambda>c. Ret (c, r))
                     else
                       obind (read_exact os k (world c) r (unat name_len)) (\<lambda>(w, r, res).
                         let c = c\<lparr>world := w\<rparr>
                         in case res of
                              Inl _ \<Rightarrow> obind (close_and_clean_connection os c) (\<lambda>c. Ret (c, r))
                            | Inr tp_name_arr \<Rightarrow>
                                (let i = i + ucast name_len;
                                     tp_name = (case from_utf8 tp_name_arr of
                                                  Some s \<Rightarrow> s | None \<Rightarrow> []);
                                     c = (case hm_get (tracepoints c) tp_name of
                                            Some val_ref \<Rightarrow> store val_ref state c
                                          | None \<Rightarrow> c)
                                 in set_loop os k n c i len r state))))
      else Ret (c, r))"

definition set_tracepoints ::
  "'w os \<Rightarrow> nat \<Rightarrow> 'w TracerContext \<Rightarrow> u32 \<Rightarrow> bufreader \<Rightarrow> bool \<Rightarrow>
     ('w TracerContext \<times> bufreader) outcome" where
  "set_tracepoints os k c len r state = set_loop os k k c 0 len r state"

fun execute_command ::
  "'w os \<Rightarrow> nat \<Rightarrow> 'w TracerContext \<Rightarrow> Command \<Rightarrow> u32 \<Rightarrow> bufreader \<Rightarrow>
     ('w TracerContext \<times> bufreader) outcome" where
  "execute_command os k c TracepointListRequest len r =
     obind (send_tracepoint_list os k c) (\<lambda>c'. Ret (c', r))"
| "execute_command os k c TracepointEnableRequest len r = set_tracepoints os k c len r True"
| "execute_command os k c TracepointDisableRequest len r = set_tracepoints os k c len r False"
| "execute_command os k c _ len r = Ret (c, r)"

primrec read_empty ::
  "'w os \<Rightarrow> nat \<Rightarrow> bufreader \<Rightarrow> 'w TracerContext \<Rightarrow> 'w TracerContext outcome" where
  "read_empty os 0 r c = Spin"
| "read_empty os (Suc k) r c =
     (case br_read os (world c) r 64 of
        (w, r', res) \<Rightarrow>
          let c' = c\<lparr>world := w\<rparr>
          in case res of
               Inr bs \<Rightarrow> (if bs = [] then Ret c' else read_empty os k r' c')
             | Inl e \<Rightarrow> (if e = WouldBlock then Ret c' else close_and_clean_connection os c'))"

primrec receive_loop ::
  "'w os \<Rightarrow> nat \<Rightarrow> nat \<Rightarrow> 'w TracerContext \<Rightarrow> bufreader \<Rightarrow> 'w TracerContext outcome" where
  "receive_loop os k 0 c r = Spin"
| "receive_loop os k (Suc n) c r =
     obind (read_exact os k (world c) r 12) (\<lambda>(w, r, res).
       let c = c\<lparr>world := w\<rparr>
       in case res of
            Inl e \<Rightarrow> (if e \<noteq> WouldBlock then close_and_clean_connection os c else Ret c)
          | Inr header \<Rightarrow>
              (case snd (check_parse_header header) of
                 None \<Rightarrow> obind (close_and_clean_connection os c) (\<lambda>c. read_empty os k r c)
               | Some (cmd, len) \<Rightarrow>
                   obind (execute_command os k c cmd len r) (\<lambda>(c, r). receive_loop os k n c r)))"

definition receive :: "'w os \<Rightarrow> nat \<Rightarrow> 'w TracerContext \<Rightarrow> 'w TracerContext outcome" where
  "receive os k c =
     obind (unwrap ConnectionIsNone (connection c)) (\<lambda>s.
       case os_try_clone os (world c) s of
         (w, None) \<Rightarrow> Panic TryCloneFailed
       | (w, Some clone) \<Rightarrow>
           obind (receive_loop os k k (c\<lparr>world := w\<rparr>) (br_new clone)) (\<lambda>c'.
             Ret (c'\<lparr>world := os_drop os (world c') clone\<rparr>)))"

end
