(* ===== verification/Tcp_Sending.thy ===== *)
theory Tcp_Sending
  imports Tcp_Handler Scripted_Env
begin

text \<open>
  Correctness of the sending half of \<^verbatim>\<open>tcp_handler.rs\<close>: what \<^verbatim>\<open>send_trace_data\<close> and
  \<^verbatim>\<open>send_tracepoint_list\<close> put on the wire, that they return on every socket, and when they panic.
\<close>

section \<open>One message\<close>

lemma send_slices_eq:
  "send_slices os k c que =
     obind (unwrap ConnectionIsNone (connection c)) (\<lambda>s.
       obind (write_all os k (world c) s (contents que)) (\<lambda>(w, res).
         Ret (c\<lparr>world := w\<rparr>, if res = Inl WouldBlock then Inr () else res)))"
proof -
  have "fst (vd_as_slices que) @ snd (vd_as_slices que) = contents que"
    by (rule vd.slices_view)
  then show ?thesis
    by (cases "vd_as_slices que")
      (auto simp: send_slices_def Let_def intro!: obind_cong split: sum.splits)
qed

lemma send_slices_None: "connection c = None \<Longrightarrow> send_slices os k c que = Panic ConnectionIsNone"
  by (simp add: send_slices_eq)

lemma send_slices_no_panic: "connection c = Some s \<Longrightarrow> send_slices os k c que \<noteq> Panic p"
  by (auto simp: send_slices_eq outcome_simps)

lemma send_slices_not_undefined [simp]: "send_slices os k c que \<noteq> Undefined"
  by (cases "connection c") (auto simp: send_slices_eq outcome_simps)

lemma send_slices_frame:
  "send_slices os k c que = Ret (c', res) \<Longrightarrow> \<exists>w. c' = c\<lparr>world := w\<rparr>"
  by (auto simp: send_slices_eq outcome_simps)

lemma send_slices_accepts:
  assumes "accepts_all os sink" and "2 \<le> k" and "connection c \<noteq> None"
  shows "\<exists>w. send_slices os k c que = Ret (c\<lparr>world := w\<rparr>, Inr ()) \<and>
    sink w = sink (world c) @ contents que"
proof -
  obtain s where s: "connection c = Some s" using assms(3) by auto
  obtain w where "write_all os k (world c) s (contents que) = Ret (w, Inr ())"
    "sink w = sink (world c) @ contents que"
    using write_all_accepts [OF assms(1,2)] by blast
  with s show ?thesis by (intro exI [of _ w]) (simp add: send_slices_eq)
qed

section \<open>Trace data\<close>

text \<open>A frame of trace data: the packages of a group of elements behind one header.\<close>

definition body_of :: "BufferElement list \<Rightarrow> bytes" where
  "body_of g = concat (map (\<lambda>e. enc_package (package_of e)) g)"

definition push_frame :: "BufferElement list \<Rightarrow> bytes" where
  "push_frame g = enc_frame (cmd_as_u16 TracePush, body_of g)"

definition group_ok :: "BufferElement list \<Rightarrow> bool" where
  "group_ok g \<longleftrightarrow> g \<noteq> [] \<and> length (push_frame g) < QUEUE_TOTAL_SIZE + 4"

lemma body_of_simps [simp]:
  "body_of [] = []" "body_of (xs @ ys) = body_of xs @ body_of ys"
  "body_of [e] = enc_package (package_of e)"
  by (simp_all add: body_of_def)

lemma length_push_frame: "length (push_frame g) = HEADER_LEN + length (body_of g)"
  by (simp add: push_frame_def length_enc_frame del: enc_frame.simps)

lemma contents_push_header:
  "contents que = body_of g \<Longrightarrow> contents (push_front_header que TracePush) = push_frame g"
  by (simp add: contents_push_front_header push_frame_def del: enc_frame.simps)

text \<open>
  The state of the loop: \<open>que\<close> holds the packages of the group \<open>g\<close> collected so far.
\<close>

definition loop_state :: "u8 vecdeque \<Rightarrow> bool \<Rightarrow> BufferElement list \<Rightarrow> bool" where
  "loop_state que complete g \<longleftrightarrow>
     contents que = body_of g \<and> (complete \<longleftrightarrow> g = []) \<and> (g \<noteq> [] \<longrightarrow> group_ok g)"

lemma loop_state_start: "loop_state vd_empty True []"
  by (simp add: loop_state_def)

lemma loop_state_append:
  assumes "loop_state que complete g"
    and "el_len e + vd_len que + HEADER_LEN < QUEUE_TOTAL_SIZE"
  shows "loop_state (encode_append_trace_data que e) False (g @ [e])"
  using assms
  by (simp add: loop_state_def contents_encode_append group_ok_def length_push_frame
      length_enc_package)

text \<open>An element that passed \<^verbatim>\<open>tracy_submit\<close> always fits into an empty queue.\<close>

lemma loop_state_full:
  assumes "loop_state que complete g" and "element_ok e"
    and "\<not> el_len e + vd_len que + HEADER_LEN < QUEUE_TOTAL_SIZE"
  shows "g \<noteq> []"
  using assms element_ok_len [OF assms(2)] by (auto simp: loop_state_def)

definition sends :: "('w \<Rightarrow> bytes) \<Rightarrow> 'w TracerContext \<Rightarrow> 'w TracerContext \<Rightarrow>
    BufferElement list \<Rightarrow> bool" where
  "sends sink c c' es \<longleftrightarrow>
     (\<exists>groups. concat groups = es \<and> list_all group_ok groups \<and>
        sink (world c') = sink (world c) @ concat (map push_frame groups) \<and>
        contents (buffer c') = [] \<and>
        c' = c\<lparr>world := world c', buffer := buffer c'\<rparr>)"

lemma sends_frame:
  assumes "sends sink c c' es"
  shows "contents (buffer c') = []" and "connection c' = connection c"
    and "queue_timeout c' = queue_timeout c" and "udp_timeout c' = udp_timeout c"
    and "buffer_occupancy c' = buffer_occupancy c" and "tracepoints c' = tracepoints c"
    and "atomics c' = atomics c"
proof -
  from assms have "contents (buffer c') = []" "c' = c\<lparr>world := world c', buffer := buffer c'\<rparr>"
    by (auto simp: sends_def)
  moreover then obtain w b where "c' = c\<lparr>world := w, buffer := b\<rparr>" by blast
  ultimately show "contents (buffer c') = []" "connection c' = connection c"
    "queue_timeout c' = queue_timeout c" "udp_timeout c' = udp_timeout c"
    "buffer_occupancy c' = buffer_occupancy c" "tracepoints c' = tracepoints c"
    "atomics c' = atomics c" by simp_all
qed

lemma sends_trans_frame:
  assumes "sends sink (c\<lparr>world := w\<rparr>) c' es" and "group_ok g"
    and "sink w = sink (world c) @ push_frame g"
  shows "sends sink c c' (g @ es)"
proof -
  from assms(1) obtain groups where "concat groups = es" "list_all group_ok groups"
    "sink (world c') = sink w @ concat (map push_frame groups)" "contents (buffer c') = []"
    "c' = c\<lparr>world := world c', buffer := buffer c'\<rparr>"
    by (auto simp: sends_def)
  with assms(2,3) show ?thesis
    unfolding sends_def by (intro exI [of _ "g # groups"]) simp
qed

lemma send_loop_sends:
  assumes acc: "accepts_all os sink" and k: "2 \<le> k"
  shows "\<lbrakk>connection c \<noteq> None; list_all element_ok (contents (buffer c));
      loop_state que complete g;
      2 * length (contents (buffer c)) + (if complete then 0 else 1) < n\<rbrakk> \<Longrightarrow>
    \<exists>c'. send_loop os k n c que complete = Ret c' \<and> sends sink c c' (g @ contents (buffer c))"
proof (induction n arbitrary: c que complete g)
  case (Suc n)
  obtain w where slices: "send_slices os k c (push_front_header que TracePush) =
      Ret (c\<lparr>world := w\<rparr>, Inr ())" and sink: "sink w = sink (world c) @ push_frame g"
    using send_slices_accepts [OF acc k Suc.prems(1), of "push_front_header que TracePush"]
      Suc.prems(3) by (auto simp: loop_state_def contents_push_header)
  show ?case
  proof (cases rule: vd.pop_front_cases [of "buffer c"])
    case Empty
    show ?thesis
    proof (cases complete)
      case True
      with Suc.prems(3) Empty show ?thesis
        by (intro exI [of _ c]) (auto simp: sends_def loop_state_def intro!: exI [of _ "[]"])
    next
      case False
      with Suc.prems(3) have "group_ok g" by (auto simp: loop_state_def)
      with False Empty slices sink show ?thesis
        by (auto simp: sends_def intro!: exI [of _ "[g]"])
    qed
  next
    case (Front e rest)
    have e: "element_ok e" using Suc.prems(2) Front by simp
    show ?thesis
    proof (cases "el_len e + vd_len que + HEADER_LEN < QUEUE_TOTAL_SIZE")
      case True
      have "\<exists>c'. send_loop os k n (c\<lparr>buffer := rest\<rparr>) (encode_append_trace_data que e) False = Ret c' \<and>
          sends sink (c\<lparr>buffer := rest\<rparr>) c' ((g @ [e]) @ contents rest)"
        using Suc.IH [of "c\<lparr>buffer := rest\<rparr>" "encode_append_trace_data que e" False "g @ [e]"]
          Suc.prems Front loop_state_append [OF Suc.prems(3) True] by auto
      with True Front show ?thesis by (auto simp: sends_def)
    next
      case False
      from loop_state_full [OF Suc.prems(3) e False] Suc.prems(3)
      have g: "group_ok g" and complete: "\<not> complete" by (auto simp: loop_state_def)
      obtain c' where "send_loop os k n (c\<lparr>world := w\<rparr>) vd_empty True = Ret c'"
        "sends sink (c\<lparr>world := w\<rparr>) c' ([] @ contents (buffer c))"
        using Suc.IH [of "c\<lparr>world := w\<rparr>" vd_empty True "[]"] Suc.prems complete loop_state_start
        by auto
      with False Front slices sends_trans_frame [OF _ g sink] show ?thesis by auto
    qed
  qed
qed simp

text \<open>Reading such a byte stream back with the decoders of the protocol gives the elements.\<close>

definition decode_push :: "bytes \<Rightarrow> package list option" where
  "decode_push bs =
     (case dec_all dec_frame bs of
        None \<Rightarrow> None
      | Some fs \<Rightarrow>
          (if list_all (\<lambda>f. fst f = cmd_as_u16 TracePush \<and> dec_all dec_package (snd f) \<noteq> None) fs
           then Some (concat (map (\<lambda>f. the (dec_all dec_package (snd f))) fs)) else None))"

lemma send_trace_data_sends:
  assumes "accepts_all os sink" and "connection c \<noteq> None"
    and "list_all element_ok (contents (buffer c))" and "2 * length (contents (buffer c)) + 2 \<le> k"
  shows "\<exists>c'. send_trace_data os k c = Ret c' \<and> sends sink c c' (contents (buffer c))"
  using send_loop_sends [OF assms(1), of k c vd_empty True "[]" k] assms loop_state_start
  by (auto simp: send_trace_data_def)

lemma dec_all_body_of:
  assumes "list_all element_ok g"
  shows "dec_all dec_package (body_of g) = Some (map package_of g)"
proof -
  have "list_all package_short (map package_of g)"
    using assms by (auto simp: list_all_iff element_ok_package_short)
  from packages.dec_all_concat [OF this] show ?thesis by (simp add: body_of_def comp_def)
qed

lemma decode_push_groups:
  assumes "list_all group_ok groups" and "list_all element_ok (concat groups)"
  shows "decode_push (concat (map push_frame groups)) = Some (map package_of (concat groups))"
proof -
  let ?fs = "map (\<lambda>g. (cmd_as_u16 TracePush, body_of g)) groups"
  have body: "dec_all dec_package (body_of g) = Some (map package_of g)" if "g \<in> set groups" for g
    using assms(2) that by (intro dec_all_body_of) (auto simp: list_all_iff)
  have "list_all frame_short ?fs"
    using assms(1) by (auto simp: list_all_iff group_ok_def length_push_frame)
  then have "dec_all dec_frame (concat (map enc_frame ?fs)) = Some ?fs"
    by (rule frames.dec_all_concat)
  moreover have "map enc_frame ?fs = map push_frame groups"
    by (simp add: push_frame_def del: enc_frame.simps)
  ultimately have frames: "dec_all dec_frame (concat (map push_frame groups)) = Some ?fs"
    by metis
  have "list_all (\<lambda>f. fst f = cmd_as_u16 TracePush \<and> dec_all dec_package (snd f) \<noteq> None) ?fs"
    using body by (auto simp: list_all_iff)
  moreover have "concat (map (\<lambda>f. the (dec_all dec_package (snd f))) ?fs) =
      map package_of (concat groups)"
    using body by (simp add: map_concat comp_def cong: map_cong)
  ultimately show ?thesis by (simp only: decode_push_def frames option.case if_True)
qed

section \<open>Panics\<close>

text \<open>With a connection, no failure of the socket makes the sender panic.\<close>

lemma send_loop_no_panic:
  "connection c \<noteq> None \<Longrightarrow> send_loop os k n c que complete \<noteq> Panic p"
proof (induction n arbitrary: c que complete)
  case (Suc n)
  obtain s where s: "connection c = Some s" using Suc.prems by auto
  have conn: "connection c' \<noteq> None" if "send_slices os k c q = Ret (c', res)" for q c' res
    using send_slices_frame [OF that] s by auto
  show ?case
    using Suc.IH s conn
    by (cases rule: vd.pop_front_cases [of "buffer c"])
      (auto simp: outcome_simps send_slices_no_panic [OF s] close_panic_iff split: sum.splits)
qed simp

text \<open>Without one, the first attempt to send is a panic.\<close>

lemma send_loop_panics:
  assumes conn: "connection c = None" and "list_all element_ok (contents (buffer c))"
    and "loop_state que complete g" and "\<not> (g = [] \<and> contents (buffer c) = [])"
    and "length (contents (buffer c)) < n"
  shows "send_loop os k n c que complete = Panic ConnectionIsNone"
  using assms
proof (induction n arbitrary: c que complete g)
  case (Suc n)
  note fail = send_slices_None [OF Suc.prems(1), of os k "push_front_header que TracePush"]
  show ?case
  proof (cases rule: vd.pop_front_cases [of "buffer c"])
    case Empty
    with Suc.prems fail show ?thesis by (auto simp: loop_state_def)
  next
    case (Front e rest)
    show ?thesis
    proof (cases "el_len e + vd_len que + HEADER_LEN < QUEUE_TOTAL_SIZE")
      case True
      have "send_loop os k n (c\<lparr>buffer := rest\<rparr>) (encode_append_trace_data que e) False =
          Panic ConnectionIsNone"
        using Suc.prems Front
        by (intro Suc.IH [OF _ _ loop_state_append [OF Suc.prems(3) True]]) auto
      with True Front show ?thesis by simp
    next
      case False
      with Front fail show ?thesis by simp
    qed
  qed
qed simp

section \<open>Termination\<close>

lemma send_slices_returns:
  assumes "finite_input os budget" and "budget (world c) + length (contents que) < k"
    and "connection c \<noteq> None"
  shows "\<exists>w res. send_slices os k c que = Ret (c\<lparr>world := w\<rparr>, res) \<and> budget w \<le> budget (world c)"
proof -
  obtain s where s: "connection c = Some s" using assms(3) by auto
  obtain w res where "write_all os k (world c) s (contents que) = Ret (w, res)" "budget w \<le> budget (world c)"
    using write_all_returns [OF assms(1,2)] by blast
  with s show ?thesis by (auto simp: send_slices_eq)
qed

text \<open>\<open>sent_or_closed\<close>: how sending may end.\<close>

definition sent_or_closed :: "'w TracerContext \<Rightarrow> 'w TracerContext \<Rightarrow> bool" where
  "sent_or_closed c c' \<longleftrightarrow>
     contents (buffer c') = [] \<and> c' = c\<lparr>world := world c', buffer := buffer c'\<rparr> \<or>
     (\<exists>n. contents (buffer c') = drop n (contents (buffer c))) \<and> connection c' = None \<and>
       \<not> atomics c' (client_connected c') \<and> queue_timeout c' = None"

lemma close_sent_or_closed:
  assumes "connection c \<noteq> None"
  shows "\<exists>c'. close_and_clean_connection os (c\<lparr>world := w\<rparr>) = Ret c' \<and> sent_or_closed c c'"
proof -
  obtain c' where c': "close_and_clean_connection os (c\<lparr>world := w\<rparr>) = Ret c'"
    using close_returns [of "c\<lparr>world := w\<rparr>" os] assms by auto
  have "\<exists>n. contents (buffer c') = drop n (contents (buffer c))"
    using close_effect(5) [OF c'] by (intro exI [of _ 0]) simp
  with close_effect(1,2,4,10) [OF c'] have "sent_or_closed c c'" by (simp add: sent_or_closed_def)
  with c' show ?thesis by blast
qed

lemma sent_or_closed_world: "sent_or_closed (c\<lparr>world := w\<rparr>) c' \<Longrightarrow> sent_or_closed c c'"
  by (auto simp: sent_or_closed_def)

lemma sent_or_closed_pop:
  assumes "sent_or_closed (c\<lparr>buffer := rest\<rparr>) c'" and "contents (buffer c) = e # contents rest"
  shows "sent_or_closed c c'"
proof -
  consider (Sent) "contents (buffer c') = []"
      "c' = c\<lparr>buffer := rest\<rparr>\<lparr>world := world c', buffer := buffer c'\<rparr>"
    | (Closed) n where "contents (buffer c') = drop n (contents rest)" "connection c' = None"
      "\<not> atomics c' (client_connected c')" "queue_timeout c' = None"
    using assms(1) by (auto simp: sent_or_closed_def)
  then show ?thesis
  proof cases
    case Closed
    then have "contents (buffer c') = drop (Suc n) (contents (buffer c))" using assms(2) by simp
    with Closed show ?thesis unfolding sent_or_closed_def by blast
  qed (simp add: sent_or_closed_def)
qed

lemma send_loop_total:
  assumes law: "finite_input os budget"
  shows "\<lbrakk>budget (world c) + QUEUE_TOTAL_SIZE + 4 \<le> k; connection c \<noteq> None;
      list_all element_ok (contents (buffer c)); loop_state que complete g;
      2 * length (contents (buffer c)) + (if complete then 0 else 1) < n\<rbrakk> \<Longrightarrow>
    \<exists>c'. send_loop os k n c que complete = Ret c' \<and> sent_or_closed c c'"
proof (induction n arbitrary: c que complete g)
  case (Suc n)
  have send: "\<exists>w res. send_slices os k c (push_front_header que TracePush) = Ret (c\<lparr>world := w\<rparr>, res) \<and>
      budget w \<le> budget (world c)" if "\<not> complete"
    using that Suc.prems
    by (intro send_slices_returns [OF law])
      (auto simp: loop_state_def group_ok_def contents_push_header)
  show ?case
  proof (cases rule: vd.pop_front_cases [of "buffer c"])
    case Empty
    show ?thesis
    proof (cases complete)
      case True
      with Empty show ?thesis by (auto simp: sent_or_closed_def)
    next
      case False
      from send [OF False] obtain w res where
        w: "send_slices os k c (push_front_header que TracePush) = Ret (c\<lparr>world := w\<rparr>, res)" by blast
      with False Empty close_sent_or_closed [OF Suc.prems(2), of os w] show ?thesis
        by (cases res) (auto simp: sent_or_closed_def)
    qed
  next
    case (Front e rest)
    have e: "element_ok e" using Suc.prems(3) Front by simp
    show ?thesis
    proof (cases "el_len e + vd_len que + HEADER_LEN < QUEUE_TOTAL_SIZE")
      case True
      have "\<exists>c'. send_loop os k n (c\<lparr>buffer := rest\<rparr>) (encode_append_trace_data que e) False = Ret c' \<and>
          sent_or_closed (c\<lparr>buffer := rest\<rparr>) c'"
        using Suc.prems Front loop_state_append [OF Suc.prems(4) True]
        by (intro Suc.IH [where g = "g @ [e]"]) auto
      with True Front sent_or_closed_pop [where c = c and rest = rest] show ?thesis by auto
    next
      case False
      from loop_state_full [OF Suc.prems(4) e False] Suc.prems(4)
      have complete: "\<not> complete" by (auto simp: loop_state_def)
      from send [OF this] obtain w res where
        w: "send_slices os k c (push_front_header que TracePush) = Ret (c\<lparr>world := w\<rparr>, res)"
        "budget w \<le> budget (world c)" by blast
      have "\<exists>c'. send_loop os k n (c\<lparr>world := w\<rparr>) vd_empty True = Ret c' \<and> sent_or_closed (c\<lparr>world := w\<rparr>) c'"
        using Suc.prems complete loop_state_start w(2) by (intro Suc.IH [where g = "[]"]) auto
      with False Front w(1) close_sent_or_closed [OF Suc.prems(2), of os w] show ?thesis
        by (cases res) (auto dest: sent_or_closed_world)
    qed
  qed
qed simp

section \<open>Tracepoint lists\<close>

lemma send_tracepoint_list_accepts:
  assumes "accepts_all os sink" and "2 \<le> k" and "connection c \<noteq> None"
  shows "\<exists>w. send_tracepoint_list os k c = Ret (c\<lparr>world := w\<rparr>) \<and>
    sink w = sink (world c) @ enc_frame (cmd_as_u16 TracepointListReply,
      concat (map enc_name (hm_keys (tracepoints c))))"
proof -
  let ?msg = "push_front_header (foldl push_name vd_empty (hm_keys (tracepoints c))) TracepointListReply"
  obtain w where "send_slices os k c ?msg = Ret (c\<lparr>world := w\<rparr>, Inr ())"
    "sink w = sink (world c) @ contents ?msg"
    using send_slices_accepts [OF assms] by blast
  then show ?thesis
    by (intro exI [of _ w])
      (simp add: send_tracepoint_list_def Let_def contents_push_front_header contents_push_names
        del: enc_frame.simps)
qed

section \<open>Properties\<close>

text \<open>
  C2. Delivery. With a connection whose socket takes what is written, \<^verbatim>\<open>send_trace_data\<close> returns
  (twice the number of buffered elements plus two rounds are enough), leaves the buffer empty
  and the rest of the context alone, and what it adds to the stream decodes, frame by frame, to
  exactly the buffered elements in order.
\<close>

theorem send_trace_data_delivers:
  assumes "accepts_all os sink" and "connection c \<noteq> None"
    and "list_all element_ok (contents (buffer c))"
    and "2 * length (contents (buffer c)) + 2 \<le> k"
  shows "\<exists>c' bs. send_trace_data os k c = Ret c' \<and>
    sink (world c') = sink (world c) @ bs \<and>
    decode_push bs = Some (map package_of (contents (buffer c))) \<and>
    contents (buffer c') = [] \<and> c' = c\<lparr>world := world c', buffer := buffer c'\<rparr>"
proof -
  obtain c' where c': "send_loop os k k c vd_empty True = Ret c'"
    "sends sink c c' ([] @ contents (buffer c))"
    using send_loop_sends [OF assms(1) _ assms(2,3) loop_state_start, of k k] assms(4) by auto
  then obtain groups where "concat groups = contents (buffer c)" "list_all group_ok groups"
    "sink (world c') = sink (world c) @ concat (map push_frame groups)"
    "contents (buffer c') = []" "c' = c\<lparr>world := world c', buffer := buffer c'\<rparr>"
    by (auto simp: sends_def)
  with c'(1) decode_push_groups [of groups] assms(3) show ?thesis
    unfolding send_trace_data_def by metis
qed

theorem send_trace_data_delivers_witness:
  "\<exists>c' bs. send_trace_data open_os 4 demo_ctx = Ret c' \<and>
    sc_sent (world c') = sc_sent (world demo_ctx) @ bs \<and>
    decode_push bs = Some (map package_of (contents (buffer demo_ctx))) \<and>
    contents (buffer c') = [] \<and> c' = demo_ctx\<lparr>world := world c', buffer := buffer c'\<rparr>"
  by (rule send_trace_data_delivers [OF open_os_accepts_all]) (simp_all add: demo_element_ok)

text \<open>
  C20. Size of the frames. Every frame \<^verbatim>\<open>send_trace_data\<close> writes carries at least one element and
  is shorter than \<^verbatim>\<open>QUEUE_TOTAL_SIZE + 4\<close> bytes: the guard does not count the two 16-bit length
  fields of the element it is about to append.
\<close>

theorem send_trace_data_frame_sizes:
  assumes "accepts_all os sink" and "connection c \<noteq> None"
    and "list_all element_ok (contents (buffer c))"
    and "2 * length (contents (buffer c)) + 2 \<le> k"
    and "send_trace_data os k c = Ret c'"
  shows "\<exists>groups. concat groups = contents (buffer c) \<and>
    sink (world c') = sink (world c) @ concat (map push_frame groups) \<and>
    (\<forall>g \<in> set groups. g \<noteq> [] \<and> length (push_frame g) < QUEUE_TOTAL_SIZE + 4)"
proof -
  have "\<exists>d. send_loop os k k c vd_empty True = Ret d \<and> sends sink c d ([] @ contents (buffer c))"
    using send_loop_sends [OF assms(1) _ assms(2,3) loop_state_start, of k k] assms(4) by auto
  with assms(5) have "sends sink c c' (contents (buffer c))"
    by (simp add: send_trace_data_def)
  then show ?thesis by (auto simp: sends_def list_all_iff group_ok_def)
qed

theorem send_trace_data_frame_sizes_witness:
  "\<exists>c'. send_trace_data open_os 4 demo_ctx = Ret c' \<and>
    (\<exists>groups. concat groups = contents (buffer demo_ctx) \<and>
      sc_sent (world c') = sc_sent (world demo_ctx) @ concat (map push_frame groups) \<and>
      (\<forall>g \<in> set groups. g \<noteq> [] \<and> length (push_frame g) < QUEUE_TOTAL_SIZE + 4))"
proof -
  obtain c' where "send_loop open_os 4 4 demo_ctx vd_empty True = Ret c'"
    using send_loop_sends [OF open_os_accepts_all _ _ _ loop_state_start, of 4 demo_ctx 4]
    by (auto simp: demo_element_ok)
  then have c': "send_trace_data open_os 4 demo_ctx = Ret c'" by (simp add: send_trace_data_def)
  from send_trace_data_frame_sizes [OF open_os_accepts_all _ _ _ c'] c' show ?thesis
    by (auto simp: demo_element_ok)
qed

text \<open>
  C21. With a connection, sending never panics, whatever the socket answers: partial writes,
  \<^verbatim>\<open>WouldBlock\<close>, errors, a failing \<^verbatim>\<open>try_clone\<close>.
\<close>

theorem send_trace_data_no_panic:
  assumes "connection c \<noteq> None"
  shows "send_trace_data os k c \<noteq> Panic p \<and> send_tracepoint_list os k c \<noteq> Panic p"
proof -
  obtain s where s: "connection c = Some s" using assms by auto
  have "send_tracepoint_list os k c \<noteq> Panic p"
    using s by (auto simp: send_tracepoint_list_def Let_def outcome_simps close_panic_iff
        send_slices_no_panic [OF s] dest: send_slices_frame split: sum.splits)
  with send_loop_no_panic [OF assms] show ?thesis by (simp add: send_trace_data_def)
qed

theorem send_trace_data_no_panic_witness:
  "send_trace_data script_os 4 demo_ctx \<noteq> Panic ConnectionIsNone \<and>
   send_tracepoint_list script_os 4 demo_ctx \<noteq> Panic ConnectionIsNone"
  by (rule send_trace_data_no_panic) simp



text \<open>
  C10. The reply to a tracepoint list request is one frame; its body decodes to the names of the
  registered tracepoints, each exactly once, in whatever order the hash map visits them.
\<close>

theorem tracepoint_list_reply:
  assumes "accepts_all os sink" and "2 \<le> k" and "connection c \<noteq> None"
    and "hm_wf (tracepoints c)" and "\<forall>s \<in> dom (hm_get (tracepoints c)). name_ok s"
    and "length (concat (map enc_name (hm_keys (tracepoints c)))) < 4294967296"
  shows "\<exists>c' bs body names. send_tracepoint_list os k c = Ret c' \<and>
    sink (world c') = sink (world c) @ bs \<and>
    dec_frame bs = Some ((cmd_as_u16 TracepointListReply, body), []) \<and>
    dec_all dec_name body = Some names \<and> distinct names \<and>
    set names = dom (hm_get (tracepoints c)) \<and> c' = c\<lparr>world := world c'\<rparr>"
proof -
  let ?ks = "hm_keys (tracepoints c)"
  let ?f = "(cmd_as_u16 TracepointListReply, concat (map enc_name ?ks))"
  obtain w where w: "send_tracepoint_list os k c = Ret (c\<lparr>world := w\<rparr>)"
    "sink w = sink (world c) @ enc_frame ?f"
    using send_tracepoint_list_accepts [OF assms(1-3)] by blast
  have "short s" if "s \<in> dom (hm_get (tracepoints c))" for s
    using bspec [OF assms(5) that] by (simp add: short_def name_ok_def)
  then have "list_all short ?ks" by (simp add: list_all_iff hm.keys_set)
  then have names: "dec_all dec_name (concat (map enc_name ?ks)) = Some ?ks"
    by (rule names.dec_all_concat)
  have "dec_frame (enc_frame ?f @ []) = Some (?f, [])"
    using assms(6) by (intro dec_frame_enc) simp
  then show ?thesis
    using w names hm.keys_distinct [OF assms(4)] hm.keys_set [of "tracepoints c"]
    by (intro exI [of _ "c\<lparr>world := w\<rparr>"] exI [of _ "enc_frame ?f"]
        exI [of _ "concat (map enc_name ?ks)"] exI [of _ ?ks])
      (simp del: enc_frame.simps)
qed

theorem tracepoint_list_reply_witness:
  "\<exists>c' bs body names. send_tracepoint_list open_os 2 demo_ctx = Ret c' \<and>
    sc_sent (world c') = sc_sent (world demo_ctx) @ bs \<and>
    dec_frame bs = Some ((cmd_as_u16 TracepointListReply, body), []) \<and>
    dec_all dec_name body = Some names \<and> distinct names \<and>
    set names = dom (hm_get (tracepoints demo_ctx)) \<and> c' = demo_ctx\<lparr>world := world c'\<rparr>"
  by (rule tracepoint_list_reply [OF open_os_accepts_all])
    (use demo_name_ok in \<open>simp_all add: dom_def demo_name_eq\<close>)

text \<open>
  C34. On any stream socket, what a message contributes to the stream is a prefix of it: all of
  it, unless \<^verbatim>\<open>write_all\<close> failed. A complete message is reported as sent, and a failure is passed
  on exactly if it is not \<^verbatim>\<open>WouldBlock\<close>.
\<close>

theorem send_slices_sends_prefix:
  assumes law: "sink_law os sink" and ret: "send_slices os k c que = Ret (c', res)"
  shows "\<exists>n \<le> length (contents que). sink (world c') = sink (world c) @ take n (contents que) \<and>
    (n = length (contents que) \<and> res = Inr () \<or>
     (\<exists>s e. write_all os k (world c) s (contents que) = Ret (world c', Inl e) \<and>
        (res = Inr () \<longleftrightarrow> e = WouldBlock)))"
proof -
  obtain s w r where wr: "write_all os k (world c) s (contents que) = Ret (w, r)"
    and c': "world c' = w" and res: "res = (if r = Inl WouldBlock then Inr () else r)"
    using ret by (auto simp: send_slices_eq outcome_simps)
  obtain n where n: "n \<le> length (contents que)" "sink w = sink (world c) @ take n (contents que)"
    "r = Inr () \<longleftrightarrow> n = length (contents que)"
    using write_all_prefix [OF law wr] by blast
  show ?thesis
  proof (cases r)
    case (Inl e)
    with wr c' res have "write_all os k (world c) s (contents que) = Ret (world c', Inl e) \<and>
        (res = Inr () \<longleftrightarrow> e = WouldBlock)" by auto
    with n c' show ?thesis by blast
  next
    case (Inr u)
    with n c' res show ?thesis by auto
  qed
qed

theorem send_slices_sends_prefix_witness:
  "\<exists>c' res. send_slices script_os 2 demo_ctx (VecDeque [1] [2, 3]) = Ret (c', res) \<and>
    (\<exists>n \<le> length (contents (VecDeque [1] [2, 3 :: u8])).
      sc_sent (world c') = sc_sent (world demo_ctx) @ take n (contents (VecDeque [1] [2, 3])) \<and>
      (n = length (contents (VecDeque [1] [2, 3 :: u8])) \<and> res = Inr () \<or>
       (\<exists>s e. write_all script_os 2 (world demo_ctx) s (contents (VecDeque [1] [2, 3])) =
          Ret (world c', Inl e) \<and> (res = Inr () \<longleftrightarrow> e = WouldBlock))))"
proof -
  obtain c' res where ret: "send_slices script_os 2 demo_ctx (VecDeque [1] [2, 3]) = Ret (c', res)"
    by (simp add: send_slices_eq contents_def script_write_def idle_script_def numeral_2_eq_2)
  show ?thesis
    by (intro exI [of _ c'] exI [of _ res] conjI [OF ret])
      (rule send_slices_sends_prefix [OF script_os_sink_law ret])
qed

text \<open>
  C35. A message cut short by \<^verbatim>\<open>WouldBlock\<close> is reported as sent. Of the framed message a proper prefix
  is in the stream, and the next message follows it immediately: when the header was through, a
  peer that reads the stream frame by frame fills the body of the first message with the
  beginning of the second, and goes on in the middle of it.
\<close>

theorem would_block_truncates:
  fixes que1 que2 cmd1 cmd2
  defines "m1 \<equiv> push_front_header que1 cmd1" and "m2 \<equiv> push_front_header que2 cmd2"
  assumes law: "sink_law os sink" and conn: "connection c = Some s"
    and short: "length (contents que1) < 4294967296"
    and first: "write_all os k (world c) s (contents m1) = Ret (w1, Inl WouldBlock)"
    and second: "write_all os k w1 s (contents m2) = Ret (w2, Inr ())"
  shows "\<exists>n < length (contents m1).
    send_slices os k c m1 = Ret (c\<lparr>world := w1\<rparr>, Inr ()) \<and>
    send_slices os k (c\<lparr>world := w1\<rparr>) m2 = Ret (c\<lparr>world := w2\<rparr>, Inr ()) \<and>
    sink w2 = sink (world c) @ take n (contents m1) @ contents m2 \<and>
    (HEADER_LEN \<le> n \<and> length (contents m1) \<le> n + length (contents m2) \<longrightarrow>
      dec_frame (take n (contents m1) @ contents m2) =
        Some ((cmd_as_u16 cmd1, take (n - HEADER_LEN) (contents que1) @
                take (length (contents m1) - n) (contents m2)),
              drop (length (contents m1) - n) (contents m2)))"
proof -
  obtain n where n: "n < length (contents m1)" "sink w1 = sink (world c) @ take n (contents m1)"
    using write_all_prefix [OF law first] by (auto simp: order_le_less)
  have "sink w2 = sink w1 @ contents m2" using write_all_prefix [OF law second] by auto
  with n(2) have stream: "sink w2 = sink (world c) @ take n (contents m1) @ contents m2" by simp
  have slices: "send_slices os k c m1 = Ret (c\<lparr>world := w1\<rparr>, Inr ())"
    "send_slices os k (c\<lparr>world := w1\<rparr>) m2 = Ret (c\<lparr>world := w2\<rparr>, Inr ())"
    using conn first second by (simp_all add: send_slices_eq)
  have m1: "contents m1 = enc_frame (cmd_as_u16 cmd1, contents que1)"
    by (simp add: m1_def contents_push_front_header del: enc_frame.simps)
  have "dec_frame (take n (contents m1) @ contents m2) =
      Some ((cmd_as_u16 cmd1, take (n - HEADER_LEN) (contents que1) @
          take (length (contents m1) - n) (contents m2)), drop (length (contents m1) - n) (contents m2))"
    if "HEADER_LEN \<le> n" "length (contents m1) \<le> n + length (contents m2)"
    unfolding m1 using that n(1) short unfolding m1 by (rule dec_frame_cut)
  with n(1) stream slices show ?thesis by blast
qed

theorem would_block_truncates_witness:
  "\<exists>n < 18. \<exists>c' c''.
    send_slices script_os 3 (demo_ctx\<lparr>world := idle_script\<lparr>sc_writes := [Inr 14, Inl WouldBlock]\<rparr>\<rparr>)
      (push_front_header (VecDeque [] [1, 2, 3, 4, 5, 6]) TracePush) = Ret (c', Inr ()) \<and>
    send_slices script_os 3 c' (push_front_header (VecDeque [] [7]) TracePush) = Ret (c'', Inr ()) \<and>
    sc_sent (world c'') = take n (enc_frame (5, [1, 2, 3, 4, 5, 6])) @ enc_frame (5, [7])"
proof -
  let ?c = "demo_ctx\<lparr>world := idle_script\<lparr>sc_writes := [Inr 14, Inl WouldBlock]\<rparr>\<rparr>"
  let ?q1 = "VecDeque [] [1, 2, 3, 4, 5, 6 :: u8]" and ?q2 = "VecDeque [] [7 :: u8]"
  let ?w1 = "idle_script\<lparr>sc_sent := take 14 (enc_frame (5, [1, 2, 3, 4, 5, 6]))\<rparr>"
  let ?w2 = "idle_script\<lparr>sc_sent := take 14 (enc_frame (5, [1, 2, 3, 4, 5, 6])) @ enc_frame (5, [7])\<rparr>"
  have q: "contents (push_front_header ?q1 TracePush) = enc_frame (5, [1, 2, 3, 4, 5, 6])"
    "contents (push_front_header ?q2 TracePush) = enc_frame (5, [7])"
    unfolding contents_push_front_header by (simp_all add: contents_def)
  have w: "write_all script_os 3 (world ?c) 7 (contents (push_front_header ?q1 TracePush)) =
      Ret (?w1, Inl WouldBlock)"
    "write_all script_os 3 ?w1 7 (contents (push_front_header ?q2 TracePush)) = Ret (?w2, Inr ())"
    unfolding q by (simp_all add: numeral_3_eq_3 script_write_def idle_script_def)
  have "connection ?c = Some 7" "length (contents ?q1) < 4294967296" by (simp_all add: contents_def)
  from would_block_truncates [OF script_os_sink_law this w] show ?thesis
    by (auto simp: q length_enc_frame simp del: enc_frame.simps)
qed

end
