(* ===== verification/Tcp_Invariants.thy ===== *)
theory Tcp_Invariants
  imports Tcp_Sending
begin

text \<open>
  What the connection handling keeps of the context. The handlers touch the context through a
  few primitive updates only: the world, a closed connection, a toggled tracepoint, an element
  taken from the buffer. The locale \<open>conn_invariant\<close> states that a predicate survives the first
  three, and proves once that it then survives receiving; \<open>ctx_invariant\<close> adds the last one, for
  sending trace data.
\<close>

section \<open>The interface\<close>

locale conn_invariant = io_frame os E
  for os :: "'w os" and E :: "'w \<Rightarrow> 'w \<Rightarrow> bool" +
  fixes I :: "'w TracerContext \<Rightarrow> bool"
  assumes I_world: "I c \<Longrightarrow> E (world c) w \<Longrightarrow> I (c\<lparr>world := w\<rparr>)"
    and I_close: "I c \<Longrightarrow> close_and_clean_connection os c = Ret c' \<Longrightarrow> I c'"
    and I_toggle: "I c \<Longrightarrow> hm_get (tracepoints c) k = Some a \<Longrightarrow> I (store a b c)"
begin

lemma send_slices_I: "I c \<Longrightarrow> send_slices os k c que = Ret (c', res) \<Longrightarrow> I c'"
  by (auto simp: send_slices_eq outcome_simps intro: I_world dest: E_write_all)

text \<open>The idiom \<^verbatim>\<open>if send_slices(..).is_err() { close } else { go on }\<close>.\<close>

lemma send_or_close_I:
  assumes "I c"
    and "obind (send_slices os k c que) (\<lambda>(d, res).
        case res of Inl _ \<Rightarrow> close_and_clean_connection os d | Inr _ \<Rightarrow> f d) = Ret c'"
    and "\<And>d. I d \<Longrightarrow> f d = Ret c' \<Longrightarrow> I c'"
  shows "I c'"
proof -
  obtain d res where d: "send_slices os k c que = Ret (d, res)"
    and fin: "(case res of Inl _ \<Rightarrow> close_and_clean_connection os d | Inr _ \<Rightarrow> f d) = Ret c'"
    using assms(2) by (auto simp: outcome_simps)
  have "I d" by (rule send_slices_I [OF assms(1) d])
  with fin assms(3) I_close show ?thesis by (cases res) auto
qed

lemma send_tracepoint_list_I:
  "I c \<Longrightarrow> send_tracepoint_list os k c = Ret c' \<Longrightarrow> I c'"
  unfolding send_tracepoint_list_def Let_def
  by (erule send_or_close_I [where f = Ret]) auto

lemma close_then_I:
  "I c \<Longrightarrow> obind (close_and_clean_connection os c) (\<lambda>c. Ret (c, r)) = Ret (c', r') \<Longrightarrow> I c'"
  by (auto simp: outcome_simps intro: I_close)

lemma set_loop_I: "I c \<Longrightarrow> set_loop os k n c i len r state = Ret (c', r') \<Longrightarrow> I c'"
proof (induction n arbitrary: c i r)
  case (Suc n)
  show ?case
  proof (cases "i < len")
    case False
    with Suc.prems show ?thesis by simp
  next
    case True
    obtain w r1 res where rd: "read_exact os k (world c) r 2 = Ret (w, r1, res)"
      using Suc.prems(2) True by (auto simp: outcome_simps)
    have E1: "E (world c) w" by (rule E_read_exact [OF rd])
    have I1: "I (c\<lparr>world := w\<rparr>)" by (rule I_world [OF Suc.prems(1) E1])
    show ?thesis
    proof (cases res)
      case (Inl e)
      with Suc.prems(2) True rd show ?thesis by (auto intro: close_then_I [OF I1])
    next
      case (Inr arr)
      let ?n = "u16_from_be_bytes arr"
      show ?thesis
      proof (cases "of_nat MAX_TRACEPOINT_NAME_LEN < ?n")
        case big: True
        with Suc.prems(2) True rd Inr show ?thesis by (auto intro: close_then_I [OF I1])
      next
        case small: False
        obtain w2 r2 res2 where rd2: "read_exact os k w r1 (unat ?n) = Ret (w2, r2, res2)"
          using Suc.prems(2) True rd Inr small by (auto simp: outcome_simps Let_def)
        have I2: "I (c\<lparr>world := w2\<rparr>)"
          by (rule I_world [OF Suc.prems(1) E_trans [OF E1 E_read_exact [OF rd2]]])
        show ?thesis
        proof (cases res2)
          case (Inl e)
          with Suc.prems(2) True rd Inr small rd2 show ?thesis
            by (auto intro: close_then_I [OF I2])
        next
          case (Inr bs)
          let ?s = "case from_utf8 bs of Some s \<Rightarrow> s | None \<Rightarrow> []"
          let ?c = "case hm_get (tracepoints c) ?s of
              Some a \<Rightarrow> store a state (c\<lparr>world := w2\<rparr>) | None \<Rightarrow> c\<lparr>world := w2\<rparr>"
          have "I ?c" using I2 I_toggle [OF I2] by (auto split: option.splits)
          moreover have "set_loop os k n ?c (i + 2 + ucast ?n) len r2 state = Ret (c', r')"
            using Suc.prems(2) True rd \<open>res = Inr arr\<close> small rd2 Inr by (simp add: Let_def)
          ultimately show ?thesis by (rule Suc.IH)
        qed
      qed
    qed
  qed
qed simp

lemma execute_command_I:
  "I c \<Longrightarrow> execute_command os k c cmd len r = Ret (c', r') \<Longrightarrow> I c'"
  by (cases cmd)
    (auto simp: set_tracepoints_def outcome_simps intro: set_loop_I send_tracepoint_list_I)

lemma read_empty_I: "I c \<Longrightarrow> read_empty os k r c = Ret c' \<Longrightarrow> I c'"
proof (induction k arbitrary: c r)
  case (Suc k)
  obtain w r1 res where br: "br_read os (world c) r 64 = (w, r1, res)"
    by (cases "br_read os (world c) r 64")
  have I1: "I (c\<lparr>world := w\<rparr>)" by (rule I_world [OF Suc.prems(1) E_br_read [OF br]])
  show ?case
    using Suc.prems(2) br I1 Suc.IH [OF I1] I_close [OF I1]
    by (cases res) (auto simp: Let_def split: if_splits)
qed simp

lemma receive_loop_I: "I c \<Longrightarrow> receive_loop os k n c r = Ret c' \<Longrightarrow> I c'"
proof (induction n arbitrary: c r)
  case (Suc n)
  obtain w r1 res where rd: "read_exact os k (world c) r 12 = Ret (w, r1, res)"
    using Suc.prems(2) by (auto simp: outcome_simps)
  have I1: "I (c\<lparr>world := w\<rparr>)" by (rule I_world [OF Suc.prems(1) E_read_exact [OF rd]])
  show ?case
  proof (cases res)
    case (Inl e)
    with Suc.prems(2) rd I1 I_close [OF I1] show ?thesis by (auto simp: Let_def split: if_splits)
  next
    case (Inr h)
    show ?thesis
    proof (cases "snd (check_parse_header h)")
      case None
      with Suc.prems(2) rd Inr obtain d where
        "close_and_clean_connection os (c\<lparr>world := w\<rparr>) = Ret d" "read_empty os k r1 d = Ret c'"
        by (auto simp: outcome_simps)
      with I_close [OF I1] read_empty_I show ?thesis by blast
    next
      case (Some p)
      obtain cmd len where p: "p = (cmd, len)" by (cases p)
      from Suc.prems(2) rd Inr Some p obtain d r2 where
        "execute_command os k (c\<lparr>world := w\<rparr>) cmd len r1 = Ret (d, r2)"
        "receive_loop os k n d r2 = Ret c'"
        by (auto simp: outcome_simps)
      with execute_command_I [OF I1] Suc.IH show ?thesis by blast
    qed
  qed
qed simp

lemma receive_I:
  assumes "I c" and "receive os k c = Ret c'"
  shows "I c'"
proof -
  obtain s w res where clone: "os_try_clone os (world c) s = (w, res)" and "connection c = Some s"
    using assms(2) by (cases "os_try_clone os (world c) (the (connection c))")
      (auto simp: receive_def outcome_simps)
  with assms(2) obtain t d where "receive_loop os k k (c\<lparr>world := w\<rparr>) (br_new t) = Ret d"
    "c' = d\<lparr>world := os_drop os (world d) t\<rparr>"
    by (cases res) (auto simp: receive_def outcome_simps)
  with receive_loop_I [OF I_world [OF assms(1) E_try_clone [OF clone]]] I_world E_drop
  show ?thesis by blast
qed

end

locale ctx_invariant = conn_invariant os E I
  for os :: "'w os" and E :: "'w \<Rightarrow> 'w \<Rightarrow> bool" and I :: "'w TracerContext \<Rightarrow> bool" +
  assumes I_pop: "I c \<Longrightarrow> vd_pop_front (buffer c) = Some (e, q) \<Longrightarrow> I (c\<lparr>buffer := q\<rparr>)"
begin

lemma send_loop_I: "I c \<Longrightarrow> send_loop os k n c que complete = Ret c' \<Longrightarrow> I c'"
proof (induction n arbitrary: c que complete)
  case (Suc n)
  show ?case
  proof (cases rule: vd.pop_front_cases [of "buffer c"])
    case Empty
    show ?thesis
    proof (cases complete)
      case True
      with Suc.prems Empty show ?thesis by simp
    next
      case False
      with Suc.prems(2) Empty
      have "obind (send_slices os k c (push_front_header que TracePush)) (\<lambda>(d, res).
          case res of Inl _ \<Rightarrow> close_and_clean_connection os d | Inr _ \<Rightarrow> Ret d) = Ret c'"
        by simp
      from send_or_close_I [OF Suc.prems(1) this] show ?thesis by simp
    qed
  next
    case (Front e rest)
    show ?thesis
    proof (cases "el_len e + vd_len que + HEADER_LEN < QUEUE_TOTAL_SIZE")
      case True
      with Suc.prems Front show ?thesis
        by (intro Suc.IH [OF I_pop [OF Suc.prems(1) Front(2)]]) auto
    next
      case False
      with Suc.prems(2) Front
      have "obind (send_slices os k c (push_front_header que TracePush)) (\<lambda>(d, res).
          case res of Inl _ \<Rightarrow> close_and_clean_connection os d
          | Inr _ \<Rightarrow> send_loop os k n d vd_empty True) = Ret c'"
        by simp
      from send_or_close_I [OF Suc.prems(1) this] Suc.IH show ?thesis by blast
    qed
  qed
qed simp

lemma send_trace_data_I: "I c \<Longrightarrow> send_trace_data os k c = Ret c' \<Longrightarrow> I c'"
  unfolding send_trace_data_def by (rule send_loop_I)

end

section \<open>Instances\<close>

text \<open>Invariants of the context alone: the world may change in any way.\<close>

abbreviation any_world :: "'w \<Rightarrow> 'w \<Rightarrow> bool" where
  "any_world \<equiv> \<lambda>_ _. True"

interpretation any: env_frame os any_world for os
  by unfold_locales simp_all

text \<open>Every buffered element stays one that \<^verbatim>\<open>tracy_submit\<close> let through.\<close>

definition buffer_ok :: "'w TracerContext \<Rightarrow> bool" where
  "buffer_ok c \<longleftrightarrow> list_all element_ok (contents (buffer c))"

interpretation buffer_ok: ctx_invariant os any_world buffer_ok for os
  by unfold_locales
    (auto simp: buffer_ok_def close_effect(5) dest: vd.pop_front_Some)

text \<open>No handler of the connection writes \<^verbatim>\<open>buffer_occupancy\<close>.\<close>

interpretation occupancy: ctx_invariant os any_world "\<lambda>c. buffer_occupancy c = n" for os n
  by unfold_locales (auto simp: close_effect(6))

text \<open>The parts of the context that are fixed when the thread starts, or owned by others.\<close>

definition same_setup :: "'w TracerContext \<Rightarrow> 'w TracerContext \<Rightarrow> bool" where
  "same_setup a b \<longleftrightarrow>
     app_cfg b = app_cfg a \<and> listener b = listener a \<and> udp_sock b = udp_sock a \<and>
     client_connected b = client_connected a \<and> tracepoints b = tracepoints a \<and>
     sequence_no b = sequence_no a \<and> next_cell b = next_cell a"

interpretation fixed: ctx_invariant os any_world "same_setup a" for os a
  by unfold_locales (auto simp: same_setup_def close_effect)

text \<open>
  The flag the application reads says whether there is a connection. The flag has a cell of its
  own: no tracepoint shares it.
\<close>

definition flag_ok :: "'w TracerContext \<Rightarrow> bool" where
  "flag_ok c \<longleftrightarrow>
     hm_wf (tracepoints c) \<and> client_connected c \<notin> ran (hm_get (tracepoints c)) \<and>
     (atomics c (client_connected c) \<longleftrightarrow> connection c \<noteq> None)"

interpretation flag: ctx_invariant os any_world flag_ok for os
proof (unfold_locales, goal_cases)
  case (2 c c')
  then show ?case by (simp add: flag_ok_def close_effect)
next
  case (3 c k a b)
  then show ?case by (auto simp: flag_ok_def ran_def)
qed (auto simp: flag_ok_def)

end
