(* ===== verification/Udp_Beacon.thy ===== *)
theory Udp_Beacon
  imports Tcp_Wire Tracer_Context
begin

text \<open>
  The announcements of \<^verbatim>\<open>src/src/udp_beacon.rs\<close>: binding the socket, formatting the JSON
  description of the tracer and sending it behind the magic number.
\<close>

section \<open>Formatting\<close>

text \<open>\<^verbatim>\<open>{}\<close> of an unsigned integer: its decimal digits, most significant first.\<close>

fun decimal :: "nat \<Rightarrow> rstring" where
  "decimal n = (if n < 10 then [of_nat (48 + n)] else decimal (n div 10) @ [of_nat (48 + n mod 10)])"

declare decimal.simps [simp del]

definition as_secs :: "duration \<Rightarrow> nat" where
  "as_secs d = d div 1000"

definition subsec_millis :: "duration \<Rightarrow> nat" where
  "subsec_millis d = d mod 1000"

definition update_interval :: "duration \<Rightarrow> u64" where
  "update_interval d =
     (let announce_interval = (of_nat (as_secs d) :: u64)
      in announce_interval + of_nat (subsec_millis d))"

definition quoted :: "rstring \<Rightarrow> rstring" where
  "quoted s = [0x22] @ s @ [0x22]"

definition format_json :: "'w os \<Rightarrow> 'w TracerContext \<Rightarrow> rstring outcome" where
  "format_json os c =
     obind (unwrap LocalAddrFailed (os_local_port os (world c) (listener c))) (\<lambda>port.
       Ret (bytes_of ''{ '' @ quoted (bytes_of ''sequence_nr'') @ bytes_of '': '' @
            decimal (unat (sequence_no c)) @ bytes_of '','' @
            quoted (bytes_of ''server_version'') @ bytes_of '': '' @ quoted SERVER_VERSION @
            bytes_of '', '' @
            quoted (bytes_of ''protocoll_version'') @ bytes_of '': '' @ quoted PROTOCOLL_VERSION @
            bytes_of '','' @
            quoted (bytes_of ''update_interval_msecs'') @ bytes_of '': '' @
            decimal (unat (update_interval (announce_interval (app_cfg c)))) @ bytes_of '','' @
            quoted (bytes_of ''hostname'') @ bytes_of '': '' @ quoted (hostname (app_cfg c)) @
            bytes_of '', '' @
            quoted (bytes_of ''process_name'') @ bytes_of '': '' @ quoted (process_name (app_cfg c)) @
            bytes_of '','' @
            quoted (bytes_of ''port'') @ bytes_of '': '' @ decimal (unat port) @ bytes_of ''}''))"

section \<open>Operations\<close>

definition udp_init :: "'w os \<Rightarrow> 'w \<Rightarrow> rstring option \<Rightarrow> 'w \<times> fd option" where
  "udp_init os w iface =
     (case iface of
        Some addr \<Rightarrow> os_udp_bind os w addr
      | None \<Rightarrow> os_udp_bind os w (bytes_of ''0.0.0.0''))"

definition announce_tracer :: "'w os \<Rightarrow> 'w TracerContext \<Rightarrow> 'w TracerContext outcome" where
  "announce_tracer os c =
     obind (format_json os c) (\<lambda>tracer_data.
       let announce_msg = MAGIC_NUMB @ tracer_data
       in obind
            (case udp_sock c of
               Some sock \<Rightarrow>
                 obind (unwrap AnnounceAddrIsNone (announce_addr (app_cfg c))) (\<lambda>addr.
                   Ret (c\<lparr>world := os_send_to os (world c) sock announce_msg addr\<rparr>))
             | None \<Rightarrow> Ret c)
            (\<lambda>c'. Ret (c'\<lparr>sequence_no := sequence_no c' + 1\<rparr>)))"

section \<open>Lemmas\<close>

text \<open>Reading a decimal numeral back.\<close>

definition decimal_value :: "rstring \<Rightarrow> nat" where
  "decimal_value ds = foldl (\<lambda>acc d. acc * 10 + (unat d - 48)) 0 ds"

lemma unat_digit: "n < 10 \<Longrightarrow> unat (of_nat (48 + n) :: u8) = 48 + n"
  by (rule unat_of_nat_less) simp

lemma decimal_value_decimal: "decimal_value (decimal n) = n"
proof (induction n rule: decimal.induct)
  case (1 n)
  show ?case
  proof (cases "n < 10")
    case True
    then show ?thesis
      using unat_digit [of n] by (subst decimal.simps) (simp add: decimal_value_def)
  next
    case False
    with "1.IH" have "decimal_value (decimal (n div 10)) = n div 10" by simp
    with False unat_digit [of "n mod 10"] show ?thesis
      by (subst decimal.simps) (simp add: decimal_value_def)
  qed
qed

lemma decimal_inj: "decimal m = decimal n \<Longrightarrow> m = n"
  by (metis decimal_value_decimal)

lemma announce_tracer_RetE:
  assumes "announce_tracer os c = Ret c'"
  obtains (Silent) json where "udp_sock c = None" "format_json os c = Ret json"
      "c' = c\<lparr>sequence_no := sequence_no c + 1\<rparr>"
  | (Sent) s json addr where "udp_sock c = Some s" "format_json os c = Ret json"
      "announce_addr (app_cfg c) = Some addr"
      "c' = c\<lparr>world := os_send_to os (world c) s (MAGIC_NUMB @ json) addr,
             sequence_no := sequence_no c + 1\<rparr>"
  using assms
  by (cases "udp_sock c") (auto simp: announce_tracer_def Let_def outcome_simps)

definition is_digit :: "u8 \<Rightarrow> bool" where
  "is_digit b \<longleftrightarrow> 48 \<le> b \<and> b \<le> 57"

lemma decimal_digits: "list_all is_digit (decimal n)"
proof (induction n rule: decimal.induct)
  case (1 n)
  have digit: "is_digit (of_nat (48 + i))" if "i < 10" for i
    using unat_digit [OF that] that by (simp add: is_digit_def word_le_nat_alt)
  show ?case
  proof (cases "n < 10")
    case True
    with digit [of n] show ?thesis by (subst decimal.simps) simp
  next
    case False
    with digit [of "n mod 10"] "1.IH" show ?thesis by (subst decimal.simps) simp
  qed
qed

lemma takeWhile_digits: "\<not> is_digit b \<Longrightarrow> takeWhile is_digit (decimal n @ b # rest) = decimal n"
  using decimal_digits [of n] by (simp add: takeWhile_append list_all_iff)

lemma takeWhile_digits_rev:
  "\<not> is_digit b \<Longrightarrow> takeWhile is_digit (rev (decimal n) @ b # rest) = rev (decimal n)"
  using decimal_digits [of n] by (simp add: takeWhile_append list_all_iff)

section \<open>Properties\<close>

text \<open>
  C30. What an announcement says can be read back: the number behind the first key is the sequence
  number, and the number in front of the closing brace is the port of the listener, whatever
  the host and the process are called.
\<close>

theorem announcement_readable:
  assumes "format_json os c = Ret json" and "os_local_port os (world c) (listener c) = Some port"
  shows "take 17 json = bytes_of ''{ '' @ quoted (bytes_of ''sequence_nr'') @ bytes_of '': '' \<and>
    decimal_value (takeWhile is_digit (drop 17 json)) = unat (sequence_no c) \<and>
    decimal_value (rev (takeWhile is_digit (tl (rev json)))) = unat port"
proof -
  let ?pre = "bytes_of ''{ '' @ quoted (bytes_of ''sequence_nr'') @ bytes_of '': ''"
  obtain mid where json:
    "json = ?pre @ decimal (unat (sequence_no c)) @ 0x2C # mid @ [0x20] @ decimal (unat port) @ [0x7D]"
    using assms by (auto simp: format_json_def bytes_of_def quoted_def)
  have pre: "length ?pre = 17" by (simp add: bytes_of_def quoted_def)
  have comma: "\<not> is_digit 0x2C" and space: "\<not> is_digit 0x20"
    by (simp_all add: is_digit_def)
  have first: "takeWhile is_digit (drop 17 json) = decimal (unat (sequence_no c))"
    unfolding json using pre by (simp add: takeWhile_digits [OF comma])
  have last: "takeWhile is_digit (tl (rev json)) = rev (decimal (unat port))"
    unfolding json by (simp add: takeWhile_digits_rev [OF space])
  show ?thesis
    using pre by (simp add: first last decimal_value_decimal) (simp add: json)
qed

theorem announcement_readable_witness:
  "\<exists>json. format_json script_os demo_ctx = Ret json \<and>
    decimal_value (takeWhile is_digit (drop 17 json)) = unat (sequence_no demo_ctx) \<and>
    decimal_value (rev (takeWhile is_digit (tl (rev json)))) = unat (61455 :: u16)"
proof -
  obtain json where json: "format_json script_os demo_ctx = Ret json"
    by (simp add: format_json_def)
  with announcement_readable [OF json, of 61455] show ?thesis by simp
qed

text \<open>
  C31. An announcement: with a socket, the magic number and the JSON text go to the configured
  address as one datagram; without one nothing is sent. The sequence number grows by one in
  both cases (and wraps at \<open>2 ^ 64\<close>), and nothing else changes.
\<close>

theorem announce_tracer_effect:
  assumes "os_local_port os (world c) (listener c) \<noteq> None"
    and "udp_sock c \<noteq> None \<longrightarrow> announce_addr (app_cfg c) \<noteq> None"
  shows "\<exists>json c'. format_json os c = Ret json \<and> announce_tracer os c = Ret c' \<and>
    c' = c\<lparr>world := world c', sequence_no := sequence_no c + 1\<rparr> \<and>
    world c' = (case udp_sock c of
        None \<Rightarrow> world c
      | Some s \<Rightarrow> os_send_to os (world c) s (MAGIC_NUMB @ json) (the (announce_addr (app_cfg c))))"
proof -
  obtain json where json: "format_json os c = Ret json"
    using assms(1) by (auto simp: format_json_def)
  then show ?thesis
    using assms(2) by (cases "udp_sock c") (auto simp: announce_tracer_def Let_def)
qed

theorem announce_tracer_effect_witness:
  "\<exists>json c'. format_json script_os demo_ctx = Ret json \<and> announce_tracer script_os demo_ctx = Ret c' \<and>
    c' = demo_ctx\<lparr>world := world c', sequence_no := sequence_no demo_ctx + 1\<rparr> \<and>
    world c' = (case udp_sock demo_ctx of
        None \<Rightarrow> world demo_ctx
      | Some s \<Rightarrow> os_send_to script_os (world demo_ctx) s (MAGIC_NUMB @ json)
          (the (announce_addr (app_cfg demo_ctx))))"
  by (rule announce_tracer_effect) (simp_all add: demo_cfg_def)

text \<open>
  C40. The announced update interval adds whole seconds to milliseconds, so it is the configured
  number of milliseconds exactly if that is below one second.
\<close>

theorem update_interval_right_iff:
  fixes interval :: u32
  shows "update_interval (unat interval) = ucast interval \<longleftrightarrow> unat interval < 1000"
proof -
  let ?d = "unat interval"
  have d: "?d < 4294967296" using unat_lt_width [of interval] by simp
  have "update_interval ?d = of_nat (?d div 1000 + ?d mod 1000)"
    by (simp add: update_interval_def as_secs_def subsec_millis_def Let_def)
  moreover have "(ucast interval :: u64) = of_nat ?d" by simp
  moreover have "?d div 1000 + ?d mod 1000 \<le> ?d"
    using div_mult_mod_eq [of ?d 1000] by linarith
  moreover have "(of_nat a = (of_nat b :: u64)) = (a = b)" if "a \<le> b" "b < 4294967296" for a b
    using that by (simp add: word_of_nat_eq_iff take_bit_eq_mod)
  ultimately have "update_interval ?d = ucast interval \<longleftrightarrow> ?d div 1000 + ?d mod 1000 = ?d"
    using d by metis
  also have "\<dots> \<longleftrightarrow> ?d < 1000" using div_mult_mod_eq [of ?d 1000] by (cases "?d div 1000") auto
  finally show ?thesis .
qed

end
