(* ===== verification/Tracer_Thread.thy ===== *)
theory Tracer_Thread
  imports Tcp_Invariants Udp_Beacon
begin

text \<open>
  The tracer thread of \<^verbatim>\<open>src/src/lib.rs\<close>: the handlers of its three event sources, the dispatch
  over a batch of events, and the main loop.
\<close>

section \<open>Handlers\<close>

definition channel_data_handler ::
  "'w os \<Rightarrow> nat \<Rightarrow> 'w TracerContext \<Rightarrow> BufferElement \<Rightarrow> 'w TracerContext outcome" where
  "channel_data_handler os k c data =
     (let c1 = ctx_append c data
      in if of_nat QUEUE_TOTAL_SIZE < buffer_occupancy c1 then
           send_trace_data os k (check_stop_queue_timer os c1)
         else Ret (check_start_queue_timer os c1))"

primrec channel_loop ::
  "'w os \<Rightarrow> nat \<Rightarrow> nat \<Rightarrow> 'w TracerContext \<Rightarrow> TracerState \<Rightarrow>
     (TracerState \<times> 'w TracerContext) outcome" where
  "channel_loop os k 0 c ret = Spin"
| "channel_loop os k (Suc n) c ret =
     (case os_try_recv os (world c) of
        (w, None) \<Rightarrow> Ret (ret, c\<lparr>world := w\<rparr>)
      | (w, Some data) \<Rightarrow>
          let c1 = c\<lparr>world := w\<rparr>
          in case data of
               Payload payload \<Rightarrow>
                 obind (channel_data_handler os k c1 payload) (\<lambda>c2.
                   channel_loop os k n c2 DataProcessed)
             | NewTracepoint tp \<Rightarrow> channel_loop os k n (insert_tracepoint c1 tp) DataProcessed
             | TerminateMsg \<Rightarrow>
                 (if connection c1 \<noteq> None then
                    obind (send_trace_data os k c1) (\<lambda>c2. Ret (Terminate, c2))
                  else Ret (Terminate, c1)))"

definition channel_handler ::
  "'w os \<Rightarrow> nat \<Rightarrow> 'w TracerContext \<Rightarrow> (TracerState \<times> 'w TracerContext) outcome" where
  "channel_handler os k c = channel_loop os k k c Normal"

primrec timer_loop ::
  "'w os \<Rightarrow> nat \<Rightarrow> nat \<Rightarrow> 'w TracerContext \<Rightarrow> 'w TracerContext outcome" where
  "timer_loop os k 0 c = Spin"
| "timer_loop os k (Suc n) c =
     (case os_timer_poll os (world c) of
        (w, None) \<Rightarrow> Ret (c\<lparr>world := w\<rparr>)
      | (w, Some timeout) \<Rightarrow>
          let c1 = c\<lparr>world := w\<rparr>
          in obind
               (if timeout = QUEUE_TIMEOUT_IDENT then
                  send_trace_data os k (c1\<lparr>queue_timeout := None\<rparr>)
                else if timeout = UDP_TIMEOUT_IDENT then
                  obind (announce_tracer os (c1\<lparr>udp_timeout := None\<rparr>)) (\<lambda>c2.
                    Ret (check_start_udp_timer os c2))
                else Ret c1)
               (\<lambda>c3. timer_loop os k n c3))"

definition timer_handler :: "'w os \<Rightarrow> nat \<Rightarrow> 'w TracerContext \<Rightarrow> 'w TracerContext outcome" where
  "timer_handler os k c = timer_loop os k k c"

fun event_loop ::
  "'w os \<Rightarrow> nat \<Rightarrow> nat list \<Rightarrow> 'w TracerContext \<Rightarrow> TracerState \<Rightarrow>
     (TracerState \<times> 'w TracerContext) outcome" where
  "event_loop os k [] c ret = Ret (ret, c)"
| "event_loop os k (token # events) c ret =
     (if token = CHAN then
        obind (channel_handler os k c) (\<lambda>(state, c1).
          if state = Terminate then Ret (Terminate, c1)
          else event_loop os k events c1 state)
      else if token = TIMER then
        obind (timer_handler os k c) (\<lambda>c1. event_loop os k events c1 ret)
      else if token = CON_NEW then
        (if connection c = None then
           obind (establish_connection os c) (\<lambda>c1.
             event_loop os k events (check_stop_udp_timer os c1) ret)
         else event_loop os k events c ret)
      else if token = CON_DATA then
        obind (receive os k c) (\<lambda>c1. event_loop os k events c1 ret)
      else event_loop os k events c ret)"

definition event_handler ::
  "'w os \<Rightarrow> nat \<Rightarrow> nat list \<Rightarrow> 'w TracerContext \<Rightarrow> (TracerState \<times> 'w TracerContext) outcome" where
  "event_handler os k events c = event_loop os k events c Normal"

section \<open>The thread\<close>

text \<open>
  \<open>h\<close> is the random hasher of the tracepoint map. The thread starts in the machine the
  application shares with it.
\<close>

definition initial_context ::
  "InitData \<Rightarrow> cell \<Rightarrow> (rstring \<Rightarrow> nat) \<Rightarrow> fd \<Rightarrow> 'w machine \<Rightarrow> 'w TracerContext" where
  "initial_context cfg connected h l m =
     \<lparr>world = world m, atomics = atomics m, next_cell = next_cell m,
      app_cfg = cfg, buffer = vd_empty, buffer_occupancy = 0,
      queue_timeout = None, udp_timeout = None, udp_sock = None, listener = l,
      connection = None, client_connected = connected, tracepoints = hm_new h,
      sequence_no = 0\<rparr>"

definition start_announcing :: "'w os \<Rightarrow> bool \<Rightarrow> 'w TracerContext \<Rightarrow> 'w TracerContext" where
  "start_announcing os announce c =
     (if announce then
        (case udp_init os (world c) (announce_iface (app_cfg c)) of
           (w, sock) \<Rightarrow> check_start_udp_timer os (c\<lparr>world := w, udp_sock := sock\<rparr>))
      else c)"

definition register_source ::
  "'w os \<Rightarrow> poll_source \<Rightarrow> nat \<Rightarrow> 'w TracerContext \<Rightarrow> 'w TracerContext outcome" where
  "register_source os src token c =
     (case os_register os (world c) src token of
        (w, ok) \<Rightarrow> if ok then Ret (c\<lparr>world := w\<rparr>) else Panic RegisterFailed)"

definition tracer_thread_start ::
  "'w os \<Rightarrow> InitData \<Rightarrow> cell \<Rightarrow> bool \<Rightarrow> (rstring \<Rightarrow> nat) \<Rightarrow> 'w machine \<Rightarrow>
     'w TracerContext outcome" where
  "tracer_thread_start os cfg connected announce h m =
     (case os_poll_new os (world m) of (w0, polled) \<Rightarrow>
        if \<not> polled then Panic PollFailed
        else case tcp_init os w0 of (w1, l) \<Rightarrow>
          obind (unwrap BindFailed l) (\<lambda>l.
            let ctx = initial_context cfg connected h l (m\<lparr>world := w1\<rparr>);
                ctx = start_announcing os announce ctx
            in obind (register_source os ChannelSource CHAN ctx) (\<lambda>ctx.
               obind (register_source os TimerSource TIMER ctx) (\<lambda>ctx.
                 register_source os (SocketSource (listener ctx)) CON_NEW ctx))))"

primrec main_loop :: "'w os \<Rightarrow> nat \<Rightarrow> nat \<Rightarrow> 'w TracerContext \<Rightarrow> 'w TracerContext outcome" where
  "main_loop os k 0 c = Spin"
| "main_loop os k (Suc n) c =
     (case os_poll os (world c) of
        (w, None) \<Rightarrow> Panic PollFailed
      | (w, Some events) \<Rightarrow>
          obind (event_handler os k events (c\<lparr>world := w\<rparr>)) (\<lambda>(state, c1).
            if state = Terminate then Ret c1 else main_loop os k n c1))"

definition tracer_thread_main ::
  "'w os \<Rightarrow> nat \<Rightarrow> InitData \<Rightarrow> cell \<Rightarrow> bool \<Rightarrow> (rstring \<Rightarrow> nat) \<Rightarrow> 'w machine \<Rightarrow>
     'w TracerContext outcome" where
  "tracer_thread_main os k cfg connected announce h m =
     obind (tracer_thread_start os cfg connected announce h m) (main_loop os k k)"

section \<open>What the thread keeps\<close>

text \<open>
  \<open>thread_invariant\<close> extends the contract of the connection handling by the updates of the
  event handlers: messages taken from the channel, timers, an accepted connection and an
  announcement. Every predicate with this contract survives a batch of events.
\<close>

locale thread_invariant = ctx_invariant os E I
  for os :: "'w os" and E :: "'w \<Rightarrow> 'w \<Rightarrow> bool" and I :: "'w TracerContext \<Rightarrow> bool" +
  assumes I_recv_none: "I c \<Longrightarrow> os_try_recv os (world c) = (w, None) \<Longrightarrow> I (c\<lparr>world := w\<rparr>)"
    and I_recv_payload: "I c \<Longrightarrow> os_try_recv os (world c) = (w, Some (Payload e)) \<Longrightarrow>
      I (ctx_append (c\<lparr>world := w\<rparr>) e)"
    and I_recv_tracepoint: "I c \<Longrightarrow> os_try_recv os (world c) = (w, Some (NewTracepoint t)) \<Longrightarrow>
      I (insert_tracepoint (c\<lparr>world := w\<rparr>) t)"
    and I_recv_terminate: "I c \<Longrightarrow> os_try_recv os (world c) = (w, Some TerminateMsg) \<Longrightarrow>
      I (c\<lparr>world := w\<rparr>)"
    and I_start_queue: "I c \<Longrightarrow> I (check_start_queue_timer os c)"
    and I_stop_queue: "I c \<Longrightarrow> I (check_stop_queue_timer os c)"
    and I_queue_expired: "I c \<Longrightarrow> os_timer_poll os (world c) = (w, Some QUEUE_TIMEOUT_IDENT) \<Longrightarrow>
      I (c\<lparr>world := w, queue_timeout := None\<rparr>)"
    and I_udp_expired: "I c \<Longrightarrow> os_timer_poll os (world c) = (w, Some UDP_TIMEOUT_IDENT) \<Longrightarrow>
      announce_tracer os (c\<lparr>world := w, udp_timeout := None\<rparr>) = Ret c' \<Longrightarrow>
      I (check_start_udp_timer os c')"
    and I_other_expired: "I c \<Longrightarrow> os_timer_poll os (world c) = (w, i) \<Longrightarrow>
      i \<noteq> Some QUEUE_TIMEOUT_IDENT \<Longrightarrow> i \<noteq> Some UDP_TIMEOUT_IDENT \<Longrightarrow> I (c\<lparr>world := w\<rparr>)"
    and I_accept: "I c \<Longrightarrow> connection c = None \<Longrightarrow>
      I (check_stop_udp_timer os (store (client_connected c) True (c\<lparr>connection := Some s\<rparr>)))"
    and I_no_accept: "I c \<Longrightarrow> connection c = None \<Longrightarrow> I (check_stop_udp_timer os c)"
begin

lemma channel_data_handler_I:
  assumes "I (ctx_append c e)" and "channel_data_handler os k c e = Ret c'"
  shows "I c'"
  using assms
  by (auto simp: channel_data_handler_def Let_def split: if_splits
      intro: I_start_queue send_trace_data_I [OF I_stop_queue])

lemma channel_loop_I:
  "I c \<Longrightarrow> channel_loop os k n c ret = Ret (st, c') \<Longrightarrow> I c'"
proof (induction n arbitrary: c ret)
  case (Suc n)
  obtain w msg where recv: "os_try_recv os (world c) = (w, msg)" by (cases "os_try_recv os (world c)")
  show ?case
  proof (cases msg)
    case None
    with Suc.prems recv I_recv_none show ?thesis by auto
  next
    case (Some data)
    note recv = recv [unfolded Some]
    show ?thesis
    proof (cases data)
      case (Payload e)
      with Suc.prems(2) recv obtain d where d: "channel_data_handler os k (c\<lparr>world := w\<rparr>) e = Ret d"
        "channel_loop os k n d DataProcessed = Ret (st, c')"
        by (auto simp: outcome_simps)
      have "I d"
        by (rule channel_data_handler_I [OF I_recv_payload [OF Suc.prems(1)] d(1)])
          (use recv Payload in simp)
      with d(2) show ?thesis by (rule Suc.IH [rotated])
    next
      case (NewTracepoint t)
      with Suc.prems recv show ?thesis
        using I_recv_tracepoint [OF Suc.prems(1), of w t] by (auto intro: Suc.IH)
    next
      case TerminateMsg
      with Suc.prems recv show ?thesis
        using I_recv_terminate [OF Suc.prems(1), of w]
        by (auto simp: Let_def outcome_simps intro: send_trace_data_I split: if_splits)
    qed
  qed
qed simp

lemma timer_loop_I: "I c \<Longrightarrow> timer_loop os k n c = Ret c' \<Longrightarrow> I c'"
proof (induction n arbitrary: c)
  case (Suc n)
  obtain w t where poll: "os_timer_poll os (world c) = (w, t)" by (cases "os_timer_poll os (world c)")
  show ?case
  proof (cases t)
    case None
    with Suc.prems poll I_other_expired [OF Suc.prems(1) poll] show ?thesis by simp
  next
    case (Some i)
    let ?c1 = "c\<lparr>world := w\<rparr>"
    obtain d where d: "(if i = QUEUE_TIMEOUT_IDENT then send_trace_data os k (?c1\<lparr>queue_timeout := None\<rparr>)
        else if i = UDP_TIMEOUT_IDENT then
          obind (announce_tracer os (?c1\<lparr>udp_timeout := None\<rparr>)) (\<lambda>c2. Ret (check_start_udp_timer os c2))
        else Ret ?c1) = Ret d" and rest: "timer_loop os k n d = Ret c'"
      using Suc.prems(2) poll Some by (auto simp: outcome_simps Let_def)
    consider "i = QUEUE_TIMEOUT_IDENT" | "i = UDP_TIMEOUT_IDENT"
      | "i \<noteq> QUEUE_TIMEOUT_IDENT" "i \<noteq> UDP_TIMEOUT_IDENT" by blast
    then have "I d"
    proof cases
      case 1
      with d send_trace_data_I [OF I_queue_expired [OF Suc.prems(1)]] poll Some show ?thesis by simp
    next
      case 2
      with d I_udp_expired [OF Suc.prems(1)] poll Some show ?thesis by (auto simp: outcome_simps)
    next
      case 3
      with d I_other_expired [OF Suc.prems(1) poll] Some show ?thesis by simp
    qed
    with rest show ?thesis by (rule Suc.IH [rotated])
  qed
qed simp

lemma establish_connection_I:
  assumes I: "I c" and none: "connection c = None" and ret: "establish_connection os c = Ret c'"
  shows "I (check_stop_udp_timer os c')"
proof -
  obtain w a where acc: "os_accept os (world c) (listener c) = (w, a)"
    by (cases "os_accept os (world c) (listener c)")
  show ?thesis
  proof (cases a)
    case None
    with ret acc I_no_accept [OF I_world [OF I E_accept [OF acc]]] none show ?thesis
      by (auto simp: establish_connection_def)
  next
    case (Some s)
    obtain w1 t where clone: "os_try_clone os w s = (w1, t)" by (cases "os_try_clone os w s")
    with ret acc Some obtain tmp where t: "t = Some tmp"
      by (cases t) (auto simp: establish_connection_def)
    obtain w2 ok where reg: "os_register os w1 (SocketSource tmp) CON_DATA = (w2, ok)"
      by (cases "os_register os w1 (SocketSource tmp) CON_DATA")
    let ?c = "c\<lparr>world := os_drop os w2 tmp\<rparr>"
    have "E (world c) (os_drop os w2 tmp)"
      using E_accept [OF acc] E_try_clone [OF clone] E_register [OF reg] E_drop by (metis E_trans)
    then have "I ?c" by (rule I_world [OF I])
    with none have "I (check_stop_udp_timer os
        (store (client_connected ?c) True (?c\<lparr>connection := Some s\<rparr>)))"
      by (intro I_accept) simp_all
    moreover have "c' = store (client_connected ?c) True (?c\<lparr>connection := Some s\<rparr>)"
      using ret acc Some clone t reg
      by (auto simp: establish_connection_def Let_def store_def split: if_splits)
    ultimately show ?thesis by simp
  qed
qed

lemma event_loop_I:
  "I c \<Longrightarrow> event_loop os k events c ret = Ret (st, c') \<Longrightarrow> I c'"
proof (induction events arbitrary: c ret)
  case (Cons t events)
  consider "t = CHAN" | "t = TIMER" | "t = CON_NEW" | "t = CON_DATA"
    | "t \<noteq> CHAN" "t \<noteq> TIMER" "t \<noteq> CON_NEW" "t \<noteq> CON_DATA" by blast
  then show ?case
  proof cases
    case 1
    with Cons.prems(2) obtain s d where "channel_handler os k c = Ret (s, d)"
      and d: "(if s = Terminate then Ret (Terminate, d) else event_loop os k events d s) = Ret (st, c')"
      by (auto simp: outcome_simps)
    then have "I d" using channel_loop_I [OF Cons.prems(1)] by (auto simp: channel_handler_def)
    with d Cons.IH show ?thesis by (auto split: if_splits)
  next
    case 2
    with Cons.prems(2) obtain d where "timer_handler os k c = Ret d"
      "event_loop os k events d ret = Ret (st, c')" by (auto simp: outcome_simps)
    with Cons.IH timer_loop_I [OF Cons.prems(1)] show ?thesis
      unfolding timer_handler_def by blast
  next
    case 3
    show ?thesis
    proof (cases "connection c")
      case None
      with 3 Cons.prems(2) obtain d where d: "establish_connection os c = Ret d"
        "event_loop os k events (check_stop_udp_timer os d) ret = Ret (st, c')"
        by (auto simp: outcome_simps)
      have "I (check_stop_udp_timer os d)"
        by (rule establish_connection_I [OF Cons.prems(1) None d(1)])
      with d(2) show ?thesis by (rule Cons.IH [rotated])
    next
      case (Some s)
      with 3 Cons show ?thesis by auto
    qed
  next
    case 4
    with Cons.prems(2) obtain d where "receive os k c = Ret d"
      "event_loop os k events d ret = Ret (st, c')" by (auto simp: outcome_simps)
    with Cons.IH receive_I [OF Cons.prems(1)] show ?thesis by blast
  next
    case 5
    with Cons show ?thesis by auto
  qed
qed simp

lemma event_handler_I: "I c \<Longrightarrow> event_handler os k events c = Ret (st, c') \<Longrightarrow> I c'"
  unfolding event_handler_def by (rule event_loop_I)

lemma main_loop_I: "I c \<Longrightarrow> main_loop os k n c = Ret c' \<Longrightarrow> I c'"
proof (induction n arbitrary: c)
  case (Suc n)
  obtain w evs where poll: "os_poll os (world c) = (w, evs)" by (cases "os_poll os (world c)")
  with Suc.prems(2) obtain es where es: "evs = Some es" by (cases evs) auto
  with Suc.prems(2) poll obtain s d where d: "event_handler os k es (c\<lparr>world := w\<rparr>) = Ret (s, d)"
    "(if s = Terminate then Ret d else main_loop os k n d) = Ret c'"
    by (auto simp: outcome_simps)
  have "I d"
    by (rule event_handler_I [OF I_world [OF Suc.prems(1) E_poll [OF poll]] d(1)])
  with d(2) Suc.IH show ?case by (auto split: if_splits)
qed simp

end

text \<open>
  A simpler contract for predicates that do not speak of the timers: each single update of the
  context keeps them, and so does everything the environment does.
\<close>

locale frame_invariant = ctx_invariant os E I + env_frame os E
  for os :: "'w os" and E :: "'w \<Rightarrow> 'w \<Rightarrow> bool" and I :: "'w TracerContext \<Rightarrow> bool" +
  assumes frame_recv_none: "I c \<Longrightarrow> os_try_recv os (world c) = (w, None) \<Longrightarrow> I (c\<lparr>world := w\<rparr>)"
    and frame_recv_payload: "I c \<Longrightarrow> os_try_recv os (world c) = (w, Some (Payload e)) \<Longrightarrow>
      I (ctx_append (c\<lparr>world := w\<rparr>) e)"
    and frame_recv_tracepoint: "I c \<Longrightarrow> os_try_recv os (world c) = (w, Some (NewTracepoint t)) \<Longrightarrow>
      I (insert_tracepoint (c\<lparr>world := w\<rparr>) t)"
    and frame_recv_terminate: "I c \<Longrightarrow> os_try_recv os (world c) = (w, Some TerminateMsg) \<Longrightarrow>
      I (c\<lparr>world := w\<rparr>)"
    and frame_accept: "I c \<Longrightarrow> connection c = None \<Longrightarrow>
      I (store (client_connected c) True (c\<lparr>connection := Some s\<rparr>))"
    and frame_queue_timeout: "I c \<Longrightarrow> I (c\<lparr>queue_timeout := t1\<rparr>)"
    and frame_udp_timeout: "I c \<Longrightarrow> I (c\<lparr>udp_timeout := t2\<rparr>)"
    and frame_sequence: "I c \<Longrightarrow> I (c\<lparr>sequence_no := sequence_no c + 1\<rparr>)"
begin

lemma start_queue_I: "I c \<Longrightarrow> I (check_start_queue_timer os c)"
  by (auto simp: check_start_queue_timer_def intro!: frame_queue_timeout I_world dest: E_set_timeout
      split: prod.splits)

lemma stop_queue_I: "I c \<Longrightarrow> I (check_stop_queue_timer os c)"
  by (auto simp: check_stop_queue_timer_def intro!: frame_queue_timeout I_world E_cancel_timeout
      split: option.splits)

lemma start_udp_I: "I c \<Longrightarrow> I (check_start_udp_timer os c)"
  by (auto simp: check_start_udp_timer_def intro!: frame_udp_timeout I_world dest: E_set_timeout
      split: prod.splits)

lemma stop_udp_I: "I c \<Longrightarrow> I (check_stop_udp_timer os c)"
  by (auto simp: check_stop_udp_timer_def intro!: frame_udp_timeout I_world E_cancel_timeout
      split: option.splits)

lemma announce_tracer_I:
  assumes "I c" and "announce_tracer os c = Ret c'"
  shows "I c'"
  using assms(2)
proof (cases rule: announce_tracer_RetE)
  case Silent
  with frame_sequence [OF assms(1)] show ?thesis by simp
next
  case (Sent s json addr)
  with frame_sequence [OF I_world [OF assms(1) E_send_to [of _ s "MAGIC_NUMB @ json" addr]]]
  show ?thesis by simp
qed

end

sublocale frame_invariant \<subseteq> thread_invariant
proof (unfold_locales, goal_cases)
  case (7 c w)
  then show ?case using frame_queue_timeout [OF I_world [OF 7(1) E_timer_poll [OF 7(2)]]] by simp
next
  case (8 c w c')
  have "I (c\<lparr>world := w, udp_timeout := None\<rparr>)"
    using frame_udp_timeout [OF I_world [OF 8(1) E_timer_poll [OF 8(2)]]] by simp
  then show ?case by (intro start_udp_I announce_tracer_I [OF _ 8(3)])
next
  case (9 c w i)
  then show ?case using I_world [OF 9(1) E_timer_poll [OF 9(2)]] by simp
next
  case (10 c s)
  then show ?case by (intro stop_udp_I frame_accept)
qed (blast intro: frame_recv_none frame_recv_payload frame_recv_tracepoint frame_recv_terminate
    start_queue_I stop_queue_I stop_udp_I)+

context frame_invariant
begin

lemma is_thread_invariant: "thread_invariant os E I"
  by unfold_locales

end

text \<open>What the thread is given when it starts never changes, and its registry stays a map.\<close>

definition same_config :: "'w TracerContext \<Rightarrow> 'w TracerContext \<Rightarrow> bool" where
  "same_config a c \<longleftrightarrow>
     app_cfg c = app_cfg a \<and> listener c = listener a \<and> udp_sock c = udp_sock a \<and>
     client_connected c = client_connected a \<and> hm_wf (tracepoints c)"

interpretation config: frame_invariant os any_world "same_config a" for os a
  by unfold_locales
    (auto simp: same_config_def close_effect frame_simps intro: hm.wf_insert)

end
