(* ===== verification/Thread_Properties.thy ===== *)
theory Thread_Properties
  imports Tracer_Thread
begin

text \<open>
  What the handlers of the tracer thread do with payloads, clients and timers: when data is
  delivered, when it is not, and when the thread panics.
\<close>

section \<open>Effects of the handlers\<close>

text \<open>\<^verbatim>\<open>buffer_occupancy\<close> counts every byte ever appended: sending does not lower it.\<close>

lemma channel_data_handler_occupancy:
  assumes "channel_data_handler os k c e = Ret c'"
  shows "buffer_occupancy c' = buffer_occupancy c + of_nat (el_len e)"
proof (cases "of_nat QUEUE_TOTAL_SIZE < buffer_occupancy (ctx_append c e)")
  case True
  with assms have "send_trace_data os k (check_stop_queue_timer os (ctx_append c e)) = Ret c'"
    by (simp add: channel_data_handler_def Let_def)
  then show ?thesis by (rule occupancy.send_trace_data_I [rotated]) (simp add: frame_simps)
next
  case False
  with assms show ?thesis by (auto simp: channel_data_handler_def Let_def frame_simps)
qed

text \<open>The context a payload is appended to, with the queue timer stopped, is still connected.\<close>

lemma queue_full:
  assumes "QUEUE_TOTAL_SIZE < unat (buffer_occupancy c) + el_len e"
    and "unat (buffer_occupancy c) + el_len e < 2 ^ 64"
  shows "of_nat QUEUE_TOTAL_SIZE < buffer_occupancy c + of_nat (el_len e)"
proof -
  have "unat (buffer_occupancy c + of_nat (el_len e)) = unat (buffer_occupancy c) + el_len e"
    using assms(2) by (simp add: unat_word_ariths unat_of_nat)
  with assms(1) show ?thesis by (simp add: word_less_nat_alt)
qed

lemma channel_data_handler_full:
  assumes "QUEUE_TOTAL_SIZE < unat (buffer_occupancy c) + el_len e"
    and "unat (buffer_occupancy c) + el_len e < 2 ^ 64"
  shows "channel_data_handler os k c e = send_trace_data os k (check_stop_queue_timer os (ctx_append c e))"
  using queue_full [OF assms] by (simp add: channel_data_handler_def Let_def frame_simps)

section \<open>The channel\<close>

text \<open>
  What the development relies on of the channel of mio-extras: \<open>chan\<close> shows the messages in
  flight while its receiver exists; sending appends one, receiving takes the oldest, and no
  other operation of the environment touches them. \<open>sink_quiet\<close>: receiving a message and arming or cancelling a
  timer sends nothing to the client.
\<close>

definition chan_law :: "'w os \<Rightarrow> ('w \<Rightarrow> ChannelMessage list) \<Rightarrow> bool" where
  "chan_law os chan \<longleftrightarrow>
     env_frame os (\<lambda>w w'. chan w' = chan w) \<and>
     (\<forall>w m. chan (fst (os_chan_send os w m)) = chan w @ [m]) \<and>
     (\<forall>w w' r. os_try_recv os w = (w', r) \<longrightarrow>
        r = (case chan w of [] \<Rightarrow> None | m # _ \<Rightarrow> Some m) \<and> chan w' = tl (chan w))"

definition sink_quiet :: "'w os \<Rightarrow> ('w \<Rightarrow> bytes) \<Rightarrow> bool" where
  "sink_quiet os sink \<longleftrightarrow>
     (\<forall>w. sink (fst (os_try_recv os w)) = sink w) \<and>
     (\<forall>w d i. sink (fst (os_set_timeout os w d i)) = sink w) \<and>
     (\<forall>w h. sink (os_cancel_timeout os w h) = sink w)"

fun payloads :: "ChannelMessage list \<Rightarrow> BufferElement list" where
  "payloads [] = []"
| "payloads (Payload e # ms) = e # payloads ms"
| "payloads (_ # ms) = payloads ms"

lemma chan_law_frame: "chan_law os chan \<Longrightarrow> env_frame os (\<lambda>w w'. chan w' = chan w)"
  by (simp add: chan_law_def)

lemma chan_law_send: "chan_law os chan \<Longrightarrow> chan (fst (os_chan_send os w m)) = chan w @ [m]"
  by (simp add: chan_law_def)

lemma chan_law_recv:
  assumes "chan_law os chan" and "os_try_recv os w = (w', r)"
  shows "r = (case chan w of [] \<Rightarrow> None | m # _ \<Rightarrow> Some m)" and "chan w' = tl (chan w)"
  using assms unfolding chan_law_def by blast+

lemma chan_law_recv_Cons:
  assumes "chan_law os chan" and "chan w = m # ms"
  shows "\<exists>w'. os_try_recv os w = (w', Some m) \<and> chan w' = ms"
  using chan_law_recv [OF assms(1), of w] assms(2) by (cases "os_try_recv os w") simp

lemma chan_law_recv_Nil:
  assumes "chan_law os chan" and "chan w = []"
  shows "\<exists>w'. os_try_recv os w = (w', None) \<and> chan w' = []"
  using chan_law_recv [OF assms(1), of w] assms(2) by (cases "os_try_recv os w") simp

lemma chan_law_recv_Some:
  assumes "chan_law os chan" and "os_try_recv os w = (w', Some m)"
  shows "chan w = m # chan w'"
  using chan_law_recv [OF assms] by (cases "chan w") simp_all

lemma chan_law_recv_None:
  assumes "chan_law os chan" and "os_try_recv os w = (w', None)"
  shows "chan w' = chan w"
  using chan_law_recv [OF assms] by (cases "chan w") simp_all

lemma chan_kept:
  assumes "chan_law os chan"
  shows "ctx_invariant os (\<lambda>w w'. chan w' = chan w) (\<lambda>c. chan (world c) = x)"
  by (intro ctx_invariant.intro ctx_invariant_axioms.intro conn_invariant.intro
      conn_invariant_axioms.intro env_frame_io chan_law_frame [OF assms])
    (auto dest: env_frame.E_close [OF chan_law_frame [OF assms]])

lemma chan_channel_data_handler:
  assumes law: "chan_law os chan" and ret: "channel_data_handler os k c e = Ret c'"
  shows "chan (world c') = chan (world c)"
proof (cases "of_nat QUEUE_TOTAL_SIZE < buffer_occupancy (ctx_append c e)")
  case True
  with ret have "send_trace_data os k (check_stop_queue_timer os (ctx_append c e)) = Ret c'"
    by (simp add: channel_data_handler_def Let_def)
  moreover have "chan (world (check_stop_queue_timer os (ctx_append c e))) = chan (world c)"
    using env_frame.E_timers(2) [OF chan_law_frame [OF law], of "ctx_append c e"]
    by (simp add: frame_simps)
  ultimately show ?thesis
    by (rule ctx_invariant.send_trace_data_I [OF chan_kept [OF law], rotated])
next
  case False
  with ret have "c' = check_start_queue_timer os (ctx_append c e)"
    by (simp add: channel_data_handler_def Let_def)
  with env_frame.E_timers(1) [OF chan_law_frame [OF law], of "ctx_append c e"] show ?thesis
    by (simp add: frame_simps)
qed

text \<open>
  \<open>delivered sink c c' es\<close>: between \<open>c\<close> and \<open>c'\<close> the elements \<open>es\<close> came in, and what was
  buffered before and came in is now, in order, either on the wire or in the buffer.
\<close>

definition delivered ::
  "('w \<Rightarrow> bytes) \<Rightarrow> 'w TracerContext \<Rightarrow> 'w TracerContext \<Rightarrow> BufferElement list \<Rightarrow> bool" where
  "delivered sink c c' es \<longleftrightarrow>
     connection c' = connection c \<and>
     (\<exists>groups. list_all group_ok groups \<and>
        sink (world c') = sink (world c) @ concat (map push_frame groups) \<and>
        concat groups @ contents (buffer c') = contents (buffer c) @ es)"

lemma delivered_trans:
  assumes "delivered sink c c' es" and "delivered sink c' c'' es'"
  shows "delivered sink c c'' (es @ es')"
proof -
  obtain g g' where "list_all group_ok g" "list_all group_ok g'"
    "sink (world c') = sink (world c) @ concat (map push_frame g)"
    "sink (world c'') = sink (world c') @ concat (map push_frame g')"
    "concat g @ contents (buffer c') = contents (buffer c) @ es"
    "concat g' @ contents (buffer c'') = contents (buffer c') @ es'"
    and "connection c'' = connection c"
    using assms by (auto simp: delivered_def)
  moreover then have "concat (g @ g') @ contents (buffer c'') = contents (buffer c) @ es @ es'"
    by (metis append.assoc concat_append)
  ultimately show ?thesis
    unfolding delivered_def by (intro conjI exI [of _ "g @ g'"]) simp_all
qed

lemma delivered_refl:
  "sink (world c') = sink (world c) \<Longrightarrow> buffer c' = buffer c \<Longrightarrow> connection c' = connection c \<Longrightarrow>
   delivered sink c c' []"
  unfolding delivered_def by (intro conjI exI [of _ "[]"]) simp_all

lemma delivered_sends:
  assumes "sends sink c c' (contents (buffer c))"
  shows "delivered sink c c' []"
  using assms sends_frame(1,2) [OF assms] by (auto simp: sends_def delivered_def)

lemma delivered_decodes:
  assumes "delivered sink c c' es" and "buffer_ok c" and "list_all element_ok es"
  shows "\<exists>bs sent. sink (world c') = sink (world c) @ bs \<and>
    decode_push bs = Some (map package_of sent) \<and>
    sent @ contents (buffer c') = contents (buffer c) @ es"
proof -
  obtain groups where g: "list_all group_ok groups"
    "sink (world c') = sink (world c) @ concat (map push_frame groups)"
    "concat groups @ contents (buffer c') = contents (buffer c) @ es"
    using assms(1) by (auto simp: delivered_def)
  have "list_all element_ok (concat groups @ contents (buffer c'))"
    unfolding g(3) using assms(2,3) by (simp add: buffer_ok_def)
  then have "decode_push (concat (map push_frame groups)) = Some (map package_of (concat groups))"
    using g(1) by (intro decode_push_groups) simp_all
  with g show ?thesis by blast
qed

lemma sink_timers:
  assumes "sink_quiet os sink"
  shows "sink (world (check_start_queue_timer os c)) = sink (world c)"
    and "sink (world (check_stop_queue_timer os c)) = sink (world c)"
proof -
  obtain w h where "os_set_timeout os (world c) (send_interval (app_cfg c)) QUEUE_TIMEOUT_IDENT = (w, h)"
    by (cases "os_set_timeout os (world c) (send_interval (app_cfg c)) QUEUE_TIMEOUT_IDENT")
  moreover then have "sink w = sink (world c)" using assms unfolding sink_quiet_def by (metis fst_conv)
  ultimately show "sink (world (check_start_queue_timer os c)) = sink (world c)"
    by (simp add: check_start_queue_timer_def)
  show "sink (world (check_stop_queue_timer os c)) = sink (world c)"
    using assms by (simp add: check_stop_queue_timer_def sink_quiet_def split: option.split)
qed

lemma channel_data_handler_delivers:
  assumes acc: "accepts_all os sink" and quiet: "sink_quiet os sink" and conn: "connection c \<noteq> None"
    and ok: "buffer_ok c" "element_ok e" and fuel: "2 * length (contents (buffer c)) + 4 \<le> k"
  shows "\<exists>c'. channel_data_handler os k c e = Ret c' \<and> delivered sink c c' [e] \<and> buffer_ok c'"
proof -
  let ?c = "ctx_append c e" and ?stop = "check_stop_queue_timer os (ctx_append c e)"
  have app: "delivered sink c ?c [e]"
    unfolding delivered_def by (intro conjI exI [of _ "[]"]) (simp_all add: frame_simps)
  have ok': "buffer_ok ?c" using ok by (simp add: buffer_ok_def frame_simps)
  show ?thesis
  proof (cases "of_nat QUEUE_TOTAL_SIZE < buffer_occupancy ?c")
    case True
    obtain c' where c': "send_trace_data os k ?stop = Ret c'" "sends sink ?stop c' (contents (buffer ?stop))"
      using send_trace_data_sends [OF acc, of ?stop k] conn ok' fuel
      by (auto simp: frame_simps buffer_ok_def)
    have "delivered sink ?c ?stop []"
      by (rule delivered_refl) (simp_all add: sink_timers [OF quiet] frame_simps)
    from delivered_trans [OF app delivered_trans [OF this delivered_sends [OF c'(2)]]]
    have "delivered sink c c' [e]" by simp
    with c' True sends_frame(1) [OF c'(2)] show ?thesis
      by (simp add: channel_data_handler_def Let_def buffer_ok_def)
  next
    case False
    let ?c' = "check_start_queue_timer os ?c"
    have "delivered sink ?c ?c' []"
      by (rule delivered_refl) (simp_all add: sink_timers [OF quiet] frame_simps)
    from delivered_trans [OF app this] have "delivered sink c ?c' [e]" by simp
    with False ok' show ?thesis
      by (simp add: channel_data_handler_def Let_def buffer_ok_def frame_simps)
  qed
qed

lemma delivered_length:
  "delivered sink c c' es \<Longrightarrow> length (contents (buffer c')) \<le> length (contents (buffer c)) + length es"
  by (auto simp: delivered_def dest: arg_cong [where f = length])

text \<open>The loop over the messages in front of a termination request or the end of the channel.\<close>

lemma channel_loop_delivers:
  assumes acc: "accepts_all os sink" and quiet: "sink_quiet os sink" and law: "chan_law os chan"
  shows "\<lbrakk>chan (world c) = ms @ rest; TerminateMsg \<notin> set ms; list_all message_ok ms; buffer_ok c;
     connection c \<noteq> None; 2 * (length (contents (buffer c)) + length ms) + 4 \<le> k\<rbrakk> \<Longrightarrow>
   \<exists>c' ret'. channel_loop os k (length ms + n) c ret = channel_loop os k n c' ret' \<and> ret' \<in> {ret, DataProcessed} \<and>
     delivered sink c c' (payloads ms) \<and> buffer_ok c' \<and> chan (world c') = rest"
proof (induction ms arbitrary: c ret)
  case Nil
  then show ?case
    by (intro exI [of _ c] exI [of _ ret]) (simp add: delivered_refl)
next
  case (Cons m ms)
  obtain w where recv: "os_try_recv os (world c) = (w, Some m)" "chan w = ms @ rest"
    using chan_law_recv_Cons [OF law, of "world c" m "ms @ rest"] Cons.prems(1) by auto
  have sink: "sink w = sink (world c)" using quiet recv(1) unfolding sink_quiet_def by (metis fst_conv)
  let ?c = "c\<lparr>world := w\<rparr>"
  have d0: "delivered sink c ?c []" using sink by (intro delivered_refl) simp_all
  have "\<exists>d. channel_loop os k (length (m # ms) + n) c ret = channel_loop os k (length ms + n) d DataProcessed \<and>
      delivered sink ?c d (payloads [m]) \<and> buffer_ok d \<and> chan (world d) = ms @ rest"
  proof (cases m)
    case (Payload e)
    obtain d where "channel_data_handler os k ?c e = Ret d" "delivered sink ?c d [e]" "buffer_ok d"
      using channel_data_handler_delivers [OF acc quiet, of ?c e k] Cons.prems Payload
      by (auto simp: buffer_ok_def)
    with recv chan_channel_data_handler [OF law] Payload show ?thesis
      by (intro exI [of _ d]) auto
  next
    case (NewTracepoint t)
    with recv Cons.prems(4) show ?thesis
      by (intro exI [of _ "insert_tracepoint ?c t"])
        (auto simp: buffer_ok_def frame_simps intro: delivered_refl)
  next
    case TerminateMsg
    with Cons.prems(2) show ?thesis by simp
  qed
  then obtain d where step:
    "channel_loop os k (length (m # ms) + n) c ret = channel_loop os k (length ms + n) d DataProcessed"
    and d: "delivered sink c d (payloads [m])" "buffer_ok d" "chan (world d) = ms @ rest"
    using delivered_trans [OF d0] by fastforce
  have pay: "payloads (m # ms) = payloads [m] @ payloads ms" by (cases m) simp_all
  have "length (payloads [m]) \<le> 1" by (cases m) simp_all
  then have "2 * (length (contents (buffer d)) + length ms) + 4 \<le> k"
    using Cons.prems(6) delivered_length [OF d(1)] by simp
  moreover have "connection d \<noteq> None" using d(1) Cons.prems(5) by (simp add: delivered_def)
  ultimately obtain c' ret' where "channel_loop os k (length ms + n) d DataProcessed = channel_loop os k n c' ret'"
    "ret' = DataProcessed" "delivered sink d c' (payloads ms)" "buffer_ok c'" "chan (world c') = rest"
    using Cons.IH [of d DataProcessed] Cons.prems d by auto
  with step delivered_trans [OF d(1)] pay show ?case by auto
qed

lemma length_payloads: "length (payloads ms) \<le> length ms"
  by (induction ms rule: payloads.induct) simp_all

lemma list_all_payloads: "list_all message_ok ms \<Longrightarrow> list_all element_ok (payloads ms)"
  by (induction ms rule: payloads.induct) simp_all

text \<open>The scripted environment keeps these laws.\<close>

lemma script_read_chan: "script_read w s n = (w', res) \<Longrightarrow> sc_chan w' = sc_chan w"
  by (auto simp: script_read_def split: list.splits sum.splits if_splits)

lemma script_write_chan: "script_write w s bs = (w', res) \<Longrightarrow> sc_chan w' = sc_chan w"
  by (auto simp: script_write_def split: list.splits sum.splits)

lemma script_timer_poll_chan: "script_timer_poll w = (w', i) \<Longrightarrow> sc_chan w' = sc_chan w"
  by (auto simp: script_timer_poll_def split: list.splits)

lemma script_os_frame: "env_frame script_os (\<lambda>w w'. sc_chan w' = sc_chan w)"
  by unfold_locales (auto dest: script_read_chan script_write_chan script_timer_poll_chan split: list.splits)

lemma script_os_chan_law: "chan_law script_os sc_chan"
  using script_os_frame by (auto simp: chan_law_def split: list.splits)

lemma open_os_chan_law: "chan_law open_os sc_chan"
proof -
  have "env_frame open_os (\<lambda>w w'. sc_chan w' = sc_chan w)"
    by unfold_locales (auto simp: open_os_def dest: script_read_chan script_timer_poll_chan split: list.splits)
  then show ?thesis by (auto simp: chan_law_def open_os_def split: list.splits)
qed

lemma open_os_sink_quiet: "sink_quiet open_os sc_sent"
  by (simp add: sink_quiet_def open_os_def split: list.splits)

section \<open>Data without a client\<close>

lemma send_trace_data_unconnected:
  assumes "connection c = None" and "buffer_ok c" and "contents (buffer c) \<noteq> []"
    and "length (contents (buffer c)) < k"
  shows "send_trace_data os k c = Panic ConnectionIsNone"
  unfolding send_trace_data_def
  by (rule send_loop_panics [OF assms(1) _ loop_state_start])
    (use assms in \<open>simp_all add: buffer_ok_def\<close>)

text \<open>The queue timeout expires while elements are buffered and nobody is connected.\<close>

lemma queue_timeout_panics:
  assumes "connection c = None" and "buffer_ok c" and "contents (buffer c) \<noteq> []"
    and "length (contents (buffer c)) < k" and "os_timer_poll os w = (w', Some QUEUE_TIMEOUT_IDENT)"
  shows "timer_handler os k (c\<lparr>world := w\<rparr>) = Panic ConnectionIsNone"
proof -
  obtain n where k: "k = Suc n" using assms(4) by (cases k) auto
  have "send_trace_data os k (c\<lparr>world := w', queue_timeout := None\<rparr>) = Panic ConnectionIsNone"
    using assms by (intro send_trace_data_unconnected) (simp_all add: buffer_ok_def)
  with assms(5) show ?thesis by (simp add: timer_handler_def k)
qed

text \<open>
  The channel is emptied into the buffer until the buffer is too large, which is a panic; if it
  never is, the queue timer runs.
\<close>

lemma channel_loop_unconnected:
  assumes law: "chan_law os chan"
  shows "\<lbrakk>chan (world c) = ms; TerminateMsg \<notin> set ms; list_all message_ok ms; buffer_ok c;
     connection c = None; length ms < n; length (contents (buffer c)) + length ms < k\<rbrakk> \<Longrightarrow>
   channel_loop os k n c ret = Panic ConnectionIsNone \<or>
   (\<exists>st c'. channel_loop os k n c ret = Ret (st, c') \<and> st \<in> {ret, DataProcessed} \<and>
     connection c' = None \<and> buffer_ok c' \<and>
     contents (buffer c') = contents (buffer c) @ payloads ms \<and>
     (payloads ms \<noteq> [] \<or> queue_timeout c \<noteq> None \<longrightarrow> queue_timeout c' \<noteq> None))"
proof (induction ms arbitrary: c ret n)
  case Nil
  obtain w where "os_try_recv os (world c) = (w, None)"
    using chan_law_recv_Nil [OF law Nil.prems(1)] by blast
  moreover obtain n' where "n = Suc n'" using Nil.prems(6) by (cases n) auto
  ultimately show ?case using Nil.prems by (auto simp: buffer_ok_def)
next
  case (Cons m ms)
  obtain n' where n: "n = Suc n'" using Cons.prems(6) by (cases n) auto
  obtain w where recv: "os_try_recv os (world c) = (w, Some m)" "chan w = ms"
    using chan_law_recv_Cons [OF law Cons.prems(1)] by blast
  let ?c = "c\<lparr>world := w\<rparr>"
  show ?case
  proof (cases m)
    case (Payload e)
    let ?a = "ctx_append ?c e"
    have ok: "buffer_ok ?a" using Cons.prems Payload by (simp add: buffer_ok_def frame_simps)
    show ?thesis
    proof (cases "of_nat QUEUE_TOTAL_SIZE < buffer_occupancy ?a")
      case True
      have "send_trace_data os k (check_stop_queue_timer os ?a) = Panic ConnectionIsNone"
        using Cons.prems ok by (intro send_trace_data_unconnected) (simp_all add: buffer_ok_def frame_simps)
      with True recv Payload show ?thesis by (simp add: n channel_data_handler_def Let_def)
    next
      case False
      let ?d = "check_start_queue_timer os ?a"
      have timer: "queue_timeout ?d \<noteq> None"
        by (simp add: check_start_queue_timer_def split: prod.split)
      have d: "channel_data_handler os k ?c e = Ret ?d"
        using False by (simp add: channel_data_handler_def Let_def)
      have chan: "chan (world ?d) = ms" using chan_channel_data_handler [OF law d] recv(2) by simp
      from Cons.IH [OF chan, of n' DataProcessed] Cons.prems ok timer d recv(1) Payload n
      show ?thesis by (auto simp: buffer_ok_def frame_simps)
    qed
  next
    case (NewTracepoint t)
    with Cons.IH [of "insert_tracepoint ?c t" n' DataProcessed] Cons.prems recv n show ?thesis
      by (auto simp: buffer_ok_def frame_simps)
  next
    case TerminateMsg
    with Cons.prems(2) show ?thesis by simp
  qed
qed

section \<open>Properties\<close>

text \<open>
  C1. Nothing is lost between the channel and the wire, and nothing is reordered. While a client is
  connected whose socket takes what is written, one channel event empties the channel, returns
  and keeps the connection; what it adds to the stream decodes to a sequence of elements which,
  followed by the elements still buffered, is exactly what was buffered before followed by the
  payloads that were in the channel.
\<close>

theorem channel_event_delivers:
  assumes "accepts_all os sink" and "sink_quiet os sink" and "chan_law os chan"
    and "connection c \<noteq> None" and "buffer_ok c"
    and "chan (world c) = ms" and "TerminateMsg \<notin> set ms" and "list_all message_ok ms"
    and "2 * (length (contents (buffer c)) + length ms) + 4 \<le> k"
  shows "\<exists>st c' bs sent. event_handler os k [CHAN] c = Ret (st, c') \<and> st \<noteq> Terminate \<and>
    chan (world c') = [] \<and> connection c' = connection c \<and>
    sink (world c') = sink (world c) @ bs \<and> decode_push bs = Some (map package_of sent) \<and>
    sent @ contents (buffer c') = contents (buffer c) @ payloads ms"
proof -
  define n where "n = k - length ms - 1"
  have k: "k = length ms + Suc n" using assms(9) by (simp add: n_def)
  have "\<exists>c' ret'. channel_loop os k (length ms + Suc n) c Normal = channel_loop os k (Suc n) c' ret' \<and>
      ret' \<in> {Normal, DataProcessed} \<and> delivered sink c c' (payloads ms) \<and> buffer_ok c' \<and>
      chan (world c') = []"
    by (rule channel_loop_delivers [OF assms(1-3)]) (use assms in simp_all)
  then obtain d ret' where loop: "channel_handler os k c = channel_loop os k (Suc n) d ret'"
    and ret': "ret' \<noteq> Terminate" and d: "delivered sink c d (payloads ms)" "chan (world d) = []"
    unfolding channel_handler_def k [symmetric] by auto
  obtain w where w: "os_try_recv os (world d) = (w, None)" "chan w = []"
    using chan_law_recv_Nil [OF assms(3) d(2)] by blast
  have "sink w = sink (world d)" using assms(2) w(1) unfolding sink_quiet_def by (metis fst_conv)
  then have "delivered sink d (d\<lparr>world := w\<rparr>) []" by (intro delivered_refl) simp_all
  from delivered_trans [OF d(1) this] have del: "delivered sink c (d\<lparr>world := w\<rparr>) (payloads ms)" by simp
  have "event_handler os k [CHAN] c = Ret (ret', d\<lparr>world := w\<rparr>)"
    using loop w ret' by (simp add: event_handler_def)
  moreover have "connection (d\<lparr>world := w\<rparr>) = connection c" using del by (simp add: delivered_def)
  ultimately show ?thesis
    using delivered_decodes [OF del assms(5) list_all_payloads [OF assms(8)]] w(2) ret' by fastforce
qed

theorem channel_event_delivers_witness:
  "\<exists>st c' bs sent. event_handler open_os 20 [CHAN]
      (demo_ctx\<lparr>world := idle_script\<lparr>sc_chan := [Payload demo_element]\<rparr>\<rparr>) = Ret (st, c') \<and>
    st \<noteq> Terminate \<and> sc_chan (world c') = [] \<and>
    connection c' = connection (demo_ctx\<lparr>world := idle_script\<lparr>sc_chan := [Payload demo_element]\<rparr>\<rparr>) \<and>
    sc_sent (world c') =
      sc_sent (world (demo_ctx\<lparr>world := idle_script\<lparr>sc_chan := [Payload demo_element]\<rparr>\<rparr>)) @ bs \<and>
    decode_push bs = Some (map package_of sent) \<and>
    sent @ contents (buffer c') =
      contents (buffer (demo_ctx\<lparr>world := idle_script\<lparr>sc_chan := [Payload demo_element]\<rparr>\<rparr>)) @
      payloads [Payload demo_element]"
  by (rule channel_event_delivers [OF open_os_accepts_all open_os_sink_quiet open_os_chan_law])
    (simp_all add: buffer_ok_def demo_element_ok)

text \<open>
  C9. Shutdown. When the messages in the channel end with the one of \<^verbatim>\<open>tracy_finit\<close> and a client
  is connected whose socket takes what is written, the thread sends everything that was
  buffered or queued before it, in order, and terminates with an empty buffer.
\<close>

theorem shutdown_flushes:
  assumes "accepts_all os sink" and "sink_quiet os sink" and "chan_law os chan"
    and "connection c \<noteq> None" and "buffer_ok c"
    and "chan (world c) = ms @ TerminateMsg # rest" and "TerminateMsg \<notin> set ms"
    and "list_all message_ok ms" and "2 * (length (contents (buffer c)) + length ms) + 4 \<le> k"
  shows "\<exists>c' bs. event_handler os k (CHAN # events) c = Ret (Terminate, c') \<and>
    contents (buffer c') = [] \<and> sink (world c') = sink (world c) @ bs \<and>
    decode_push bs = Some (map package_of (contents (buffer c) @ payloads ms))"
proof -
  define n where "n = k - length ms - 1"
  have k: "k = length ms + Suc n" using assms(9) by (simp add: n_def)
  have "\<exists>c' ret'. channel_loop os k (length ms + Suc n) c Normal = channel_loop os k (Suc n) c' ret' \<and>
      ret' \<in> {Normal, DataProcessed} \<and> delivered sink c c' (payloads ms) \<and> buffer_ok c' \<and>
      chan (world c') = TerminateMsg # rest"
    by (rule channel_loop_delivers [OF assms(1-3)]) (use assms in simp_all)
  then obtain d ret' where loop: "channel_handler os k c = channel_loop os k (Suc n) d ret'"
    and d: "delivered sink c d (payloads ms)" "buffer_ok d" "chan (world d) = TerminateMsg # rest"
    unfolding channel_handler_def k [symmetric] by auto
  obtain w where w: "os_try_recv os (world d) = (w, Some TerminateMsg)"
    using chan_law_recv_Cons [OF assms(3) d(3)] by blast
  have "sink w = sink (world d)" using assms(2) w(1) unfolding sink_quiet_def by (metis fst_conv)
  then have d': "delivered sink d (d\<lparr>world := w\<rparr>) []" by (intro delivered_refl) simp_all
  have conn: "connection (d\<lparr>world := w\<rparr>) \<noteq> None" using d(1) assms(4) by (simp add: delivered_def)
  have fuel: "2 * length (contents (buffer (d\<lparr>world := w\<rparr>))) + 2 \<le> k"
    using length_payloads [of ms] delivered_length [OF d(1)] assms(9) by simp
  obtain c' where c': "send_trace_data os k (d\<lparr>world := w\<rparr>) = Ret c'"
    "sends sink (d\<lparr>world := w\<rparr>) c' (contents (buffer (d\<lparr>world := w\<rparr>)))"
    using send_trace_data_sends [OF assms(1) conn _ fuel] d(2) by (auto simp: buffer_ok_def)
  have del: "delivered sink c c' (payloads ms)"
    using delivered_trans [OF delivered_trans [OF d(1) d'] delivered_sends [OF c'(2)]] by simp
  have empty: "contents (buffer c') = []" by (rule sends_frame(1) [OF c'(2)])
  have "event_handler os k (CHAN # events) c = Ret (Terminate, c')"
    using loop w c'(1) conn by (simp add: event_handler_def)
  with delivered_decodes [OF del assms(5) list_all_payloads [OF assms(8)]] empty show ?thesis
    by fastforce
qed

theorem shutdown_flushes_witness:
  "\<exists>c' bs. event_handler open_os 20 [CHAN]
      (demo_ctx\<lparr>world := idle_script\<lparr>sc_chan := [Payload demo_element, TerminateMsg]\<rparr>\<rparr>) =
      Ret (Terminate, c') \<and> contents (buffer c') = [] \<and> sc_sent (world c') = bs \<and>
    decode_push bs = Some (map package_of [demo_element, demo_element])"
  using shutdown_flushes [OF open_os_accepts_all open_os_sink_quiet open_os_chan_law, of
      "demo_ctx\<lparr>world := idle_script\<lparr>sc_chan := [Payload demo_element, TerminateMsg]\<rparr>\<rparr>"
      "[Payload demo_element]" "[]" 20 "[]"]
  by (simp add: buffer_ok_def demo_element_ok)

text \<open>
  C27. \<^verbatim>\<open>buffer_occupancy\<close> is never lowered when data is sent, so once more than
  \<^verbatim>\<open>QUEUE_TOTAL_SIZE\<close> bytes have been submitted in all, each further payload is sent at once,
  behind whatever was buffered: what is added to the stream decodes to exactly these elements,
  the buffer is empty and no timer runs. The counter stays above the limit, so the batching is
  over for the rest of the run.
\<close>

theorem batching_ends:
  assumes "accepts_all os sink" and "sink_quiet os sink"
    and "connection c \<noteq> None" and "buffer_ok c" and "element_ok e"
    and "QUEUE_TOTAL_SIZE < unat (buffer_occupancy c)"
    and "unat (buffer_occupancy c) + el_len e < 2 ^ 64"
    and "2 * length (contents (buffer c)) + 4 \<le> k"
  shows "\<exists>c' bs. channel_data_handler os k c e = Ret c' \<and>
    sink (world c') = sink (world c) @ bs \<and>
    decode_push bs = Some (map package_of (contents (buffer c) @ [e])) \<and>
    contents (buffer c') = [] \<and> queue_timeout c' = None \<and> connection c' = connection c \<and>
    unat (buffer_occupancy c') = unat (buffer_occupancy c) + el_len e"
proof -
  let ?c = "check_stop_queue_timer os (ctx_append c e)"
  have "list_all element_ok (contents (buffer ?c))"
    using assms(4,5) by (simp add: frame_simps buffer_ok_def)
  then obtain c' where ret: "send_trace_data os k ?c = Ret c'"
    and sent: "sends sink ?c c' (contents (buffer ?c))"
    using send_trace_data_sends [OF assms(1), of ?c k] assms(3,8) by (auto simp: frame_simps)
  have handler: "channel_data_handler os k c e = Ret c'"
    using ret by (subst channel_data_handler_full) (use assms in simp_all)
  have occ: "unat (buffer_occupancy c') = unat (buffer_occupancy c) + el_len e"
    using channel_data_handler_occupancy [OF handler] assms(7)
    by (simp add: unat_word_ariths unat_of_nat)
  obtain d where "channel_data_handler os k c e = Ret d" "delivered sink c d [e]"
    using channel_data_handler_delivers [OF assms(1-5,8)] by blast
  with handler have "delivered sink c c' [e]" by simp
  from delivered_decodes [OF this assms(4)] assms(5) sends_frame(1) [OF sent]
  obtain bs where "sink (world c') = sink (world c) @ bs"
    "decode_push bs = Some (map package_of (contents (buffer c) @ [e]))" by auto
  with handler sends_frame [OF sent] occ show ?thesis
    by (intro exI [of _ c'] exI [of _ bs]) (simp add: frame_simps)
qed

theorem batching_ends_witness:
  "\<exists>c' bs. channel_data_handler open_os 6 (demo_ctx\<lparr>buffer_occupancy := 4097\<rparr>) demo_element = Ret c' \<and>
    sc_sent (world c') = sc_sent (world (demo_ctx\<lparr>buffer_occupancy := 4097\<rparr>)) @ bs \<and>
    decode_push bs =
      Some (map package_of (contents (buffer (demo_ctx\<lparr>buffer_occupancy := 4097\<rparr>)) @ [demo_element])) \<and>
    contents (buffer c') = [] \<and> queue_timeout c' = None \<and>
    connection c' = connection (demo_ctx\<lparr>buffer_occupancy := 4097\<rparr>) \<and>
    unat (buffer_occupancy c') = unat (buffer_occupancy (demo_ctx\<lparr>buffer_occupancy := 4097\<rparr>)) + el_len demo_element"
  by (rule batching_ends [OF open_os_accepts_all open_os_sink_quiet])
    (simp_all add: buffer_ok_def demo_element_ok, simp_all add: el_len_def demo_element_def demo_name_eq)

text \<open>
  C26. Data that reaches the thread after the client has gone ends it. Without a connection, a
  payload that makes the buffer too large panics at once; a smaller one is kept and the queue
  timer started, and the thread panics when that timer expires.
\<close>

theorem late_payload_panics:
  assumes "connection c = None" and "buffer_ok c" and "element_ok e"
    and "length (contents (buffer c)) + 1 < k"
    and "unat (buffer_occupancy c) + el_len e < 2 ^ 64"
  shows "if QUEUE_TOTAL_SIZE < unat (buffer_occupancy c) + el_len e
    then channel_data_handler os k c e = Panic ConnectionIsNone
    else \<exists>c'. channel_data_handler os k c e = Ret c' \<and> queue_timeout c' \<noteq> None \<and>
      (\<forall>w w'. os_timer_poll os w = (w', Some QUEUE_TIMEOUT_IDENT) \<longrightarrow>
        timer_handler os k (c'\<lparr>world := w\<rparr>) = Panic ConnectionIsNone)"
proof -
  let ?c = "ctx_append c e"
  have ok: "buffer_ok d" if "contents (buffer d) = contents (buffer ?c)" for d :: "'a TracerContext"
    using assms(2,3) that by (simp add: frame_simps buffer_ok_def)
  show ?thesis
  proof (cases "QUEUE_TOTAL_SIZE < unat (buffer_occupancy c) + el_len e")
    case True
    have "send_trace_data os k (check_stop_queue_timer os ?c) = Panic ConnectionIsNone"
      using assms(1,4) by (intro send_trace_data_unconnected ok) (simp_all add: frame_simps)
    with True show ?thesis by (simp add: channel_data_handler_full [OF True assms(5)])
  next
    case False
    let ?d = "check_start_queue_timer os ?c"
    have "\<not> of_nat QUEUE_TOTAL_SIZE < buffer_occupancy ?c"
      using False assms(5) by (simp add: frame_simps word_less_nat_alt unat_word_ariths unat_of_nat)
    then have handler: "channel_data_handler os k c e = Ret ?d"
      by (simp add: channel_data_handler_def Let_def)
    have "queue_timeout ?d \<noteq> None"
      by (simp add: check_start_queue_timer_def split: prod.split)
    moreover have "timer_handler os k (?d\<lparr>world := w\<rparr>) = Panic ConnectionIsNone"
      if "os_timer_poll os w = (w', Some QUEUE_TIMEOUT_IDENT)" for w w'
      using assms(1,4) by (intro queue_timeout_panics [OF _ ok _ _ that]) (simp_all add: frame_simps)
    ultimately show ?thesis using False handler by auto
  qed
qed

theorem late_payload_panics_witness:
  "channel_data_handler script_os 3 (demo_ctx\<lparr>connection := None, buffer_occupancy := 4097\<rparr>) demo_element =
     Panic ConnectionIsNone"
  using late_payload_panics [of "demo_ctx\<lparr>connection := None, buffer_occupancy := 4097\<rparr>" demo_element 3
      script_os]
  by (simp add: buffer_ok_def demo_element_ok)
    (simp add: el_len_def demo_element_def demo_name_eq)

text \<open>
  C28. New clients, in all five outcomes. Without a client, an accepted connection turns the shared
  flag on and stops the announcements, and changes nothing else the application sees; when the
  accepted socket cannot be duplicated or registered, the thread panics. A failing accept
  returns, but stops the announcements too, although there is no client. While a client is
  connected, the event of another one is ignored and the context left alone: the listener is
  edge-triggered, so nothing accepts that client later.
\<close>

theorem new_client_event:
  "(connection c = None \<and> os_accept os (world c) (listener c) = (w, Some s) \<and>
    os_try_clone os w s = (w1, Some t) \<and>
    os_register os w1 (SocketSource t) CON_DATA = (w2, True) \<longrightarrow>
     (\<exists>c'. event_handler os k [CON_NEW] c = Ret (Normal, c') \<and> connection c' = Some s \<and>
       udp_timeout c' = None \<and> atomics c' = (atomics c)(client_connected c := True) \<and>
       buffer c' = buffer c \<and> tracepoints c' = tracepoints c)) \<and>
   (connection c = None \<and> os_accept os (world c) (listener c) = (w, Some s) \<and>
    os_try_clone os w s = (w1, None) \<longrightarrow>
     event_handler os k [CON_NEW] c = Panic TryCloneFailed) \<and>
   (connection c = None \<and> os_accept os (world c) (listener c) = (w, Some s) \<and>
    os_try_clone os w s = (w1, Some t) \<and>
    os_register os w1 (SocketSource t) CON_DATA = (w2, False) \<longrightarrow>
     event_handler os k [CON_NEW] c = Panic RegisterFailed) \<and>
   (connection c = None \<and> os_accept os (world c) (listener c) = (w, None) \<longrightarrow>
     (\<exists>c'. event_handler os k [CON_NEW] c = Ret (Normal, c') \<and>
       connection c' = None \<and> udp_timeout c' = None \<and> atomics c' = atomics c)) \<and>
   (connection c \<noteq> None \<longrightarrow> event_handler os k [CON_NEW] c = Ret (Normal, c))"
  by (auto simp: event_handler_def establish_connection_def Let_def frame_simps)

theorem new_client_event_witness:
  "event_handler script_os 1 [CON_NEW] demo_ctx = Ret (Normal, demo_ctx) \<and>
   (\<exists>c'. event_handler script_os 1 [CON_NEW] (demo_ctx\<lparr>connection := None, udp_timeout := Some 5\<rparr>) =
     Ret (Normal, c') \<and> connection c' = None \<and> udp_timeout c' = None) \<and>
   (\<exists>c'. event_handler script_os 1 [CON_NEW]
      (demo_ctx\<lparr>connection := None, world := idle_script\<lparr>sc_accepts := [8]\<rparr>\<rparr>) = Ret (Normal, c') \<and>
     connection c' = Some 8 \<and> udp_timeout c' = None)"
  using new_client_event [of demo_ctx script_os idle_script 8 idle_script 8 idle_script 1]
    new_client_event [of "demo_ctx\<lparr>connection := None, udp_timeout := Some 5\<rparr>" script_os
      idle_script 8 idle_script 8 idle_script 1]
    new_client_event [of "demo_ctx\<lparr>connection := None, world := idle_script\<lparr>sc_accepts := [8]\<rparr>\<rparr>"
      script_os idle_script 8 idle_script 8 idle_script 1]
  by (auto simp: idle_script_def)

end
