(* ===== verification/Tcp_Receiving.thy ===== *)
theory Tcp_Receiving
  imports Tcp_Invariants
begin

text \<open>
  Correctness of the receiving half of \<^verbatim>\<open>tcp_handler.rs\<close>: which tracepoints a request toggles,
  how a well-formed session is executed, and how ill-formed and partial input is treated.
\<close>

section \<open>Toggling\<close>

text \<open>The effect of a list of names: each registered one is set, the others are skipped.\<close>

definition toggle :: "bool \<Rightarrow> rstring \<Rightarrow> 'w TracerContext \<Rightarrow> 'w TracerContext" where
  "toggle state s c =
     (case hm_get (tracepoints c) s of Some a \<Rightarrow> store a state c | None \<Rightarrow> c)"

definition toggle_all :: "bool \<Rightarrow> rstring list \<Rightarrow> 'w TracerContext \<Rightarrow> 'w TracerContext" where
  "toggle_all state ss c = fold (toggle state) ss c"

lemma toggle_all_simps [simp]:
  "toggle_all state [] c = c"
  "toggle_all state (s # ss) c = toggle_all state ss (toggle state s c)"
  by (simp_all add: toggle_all_def)

lemma toggle_frame [simp]:
  "world (toggle state s c) = world c" "tracepoints (toggle state s c) = tracepoints c"
  "connection (toggle state s c) = connection c"
  "client_connected (toggle state s c) = client_connected c"
  by (simp_all add: toggle_def split: option.split)

lemma toggle_all_frame [simp]:
  "world (toggle_all state ss c) = world c" "tracepoints (toggle_all state ss c) = tracepoints c"
  "connection (toggle_all state ss c) = connection c"
  "client_connected (toggle_all state ss c) = client_connected c"
  by (induction ss arbitrary: c) simp_all

lemma toggle_world: "toggle state s (c\<lparr>world := w\<rparr>) = (toggle state s c)\<lparr>world := w\<rparr>"
  by (simp add: toggle_def store_def split: option.split)

lemma toggle_all_world:
  "toggle_all state ss (c\<lparr>world := w\<rparr>) = (toggle_all state ss c)\<lparr>world := w\<rparr>"
  by (induction ss arbitrary: c) (simp_all add: toggle_world)

lemma atomics_toggle_all:
  "atomics (toggle_all state ss c) a =
     (if \<exists>s \<in> set ss. hm_get (tracepoints c) s = Some a then state else atomics c a)"
  by (induction ss arbitrary: c) (auto simp: toggle_def split: option.split)

text \<open>A name as a client may send it: no longer than 32 bytes, and UTF-8.\<close>

definition wire_name :: "rstring \<Rightarrow> bool" where
  "wire_name s \<longleftrightarrow> length s \<le> MAX_TRACEPOINT_NAME_LEN \<and> utf8_valid s"

lemma wire_name_short: "wire_name s \<Longrightarrow> short s"
  by (simp add: wire_name_def short_def)

section \<open>Requests in the buffer\<close>

lemma unat_add_no_wrap:
  fixes i len :: "'a::len word"
  assumes "unat i + n \<le> unat len"
  shows "unat (i + of_nat n) = unat i + n"
proof -
  have "unat i + n < 2 ^ LENGTH('a)" using assms unat_lt_width [of len] by linarith
  then show ?thesis by (simp add: unat_word_ariths unat_of_nat mod_add_right_eq)
qed

lemma set_loop_step:
  assumes "wire_name s" and buf: "br_buf r = enc_name s @ rest" and "i < len" and "2 \<le> k"
  shows "set_loop os k (Suc n) c i len r state =
    set_loop os k n (toggle state s c) (i + of_nat (2 + length s)) len (r\<lparr>br_buf := rest\<rparr>) state"
proof -
  have len: "length s \<le> 32" and u: "from_utf8 s = Some s"
    using assms(1) by (simp_all add: wire_name_def from_utf8_def)
  have n: "unat (of_nat (length s) :: u16) = length s"
    using len by (intro unat_of_nat_less) simp
  have ok: "\<not> (32 :: u16) < of_nat (length s)"
    using len n by (simp add: word_less_nat_alt)
  have cast: "(ucast (of_nat (length s) :: u16) :: u32) = of_nat (length s)"
    using n by (metis of_nat_unat)
  have buf': "br_buf r = u16_to_be_bytes (of_nat (length s)) @ s @ rest"
    using buf by (simp add: enc_name_def)
  have r1: "read_exact os k w r 2 =
      Ret (w, r\<lparr>br_buf := s @ rest\<rparr>, Inr (u16_to_be_bytes (of_nat (length s))))" for w
    using read_exact_buffered [of 2 r k os w] assms(4) buf' by simp
  have r2: "read_exact os k w (r\<lparr>br_buf := s @ rest\<rparr>) (length s) =
      Ret (w, r\<lparr>br_buf := rest\<rparr>, Inr s)" for w
    using read_exact_buffered [of "length s" "r\<lparr>br_buf := s @ rest\<rparr>" k os w] assms(4) by simp
  show ?thesis
    using assms(3) ok
    by (simp add: r1 r2 n u cast Let_def toggle_def add.assoc split: option.split)
qed

lemma set_loop_names:
  "\<lbrakk>list_all wire_name ss; br_buf r = concat (map enc_name ss) @ rest;
    unat i + length (concat (map enc_name ss)) = unat len; length ss < n; 2 \<le> k\<rbrakk> \<Longrightarrow>
   set_loop os k n c i len r state = Ret (toggle_all state ss c, r\<lparr>br_buf := rest\<rparr>)"
proof (induction ss arbitrary: n c i r)
  case Nil
  then show ?case by (cases n) (simp_all add: word_less_nat_alt)
next
  case (Cons s ss)
  from Cons.prems(4) obtain m where n: "n = Suc m" by (cases n) auto
  have i: "i < len" using Cons.prems(3) by (simp add: word_less_nat_alt)
  have i': "unat (i + of_nat (2 + length s)) = unat i + (2 + length s)"
    using Cons.prems(3) by (intro unat_add_no_wrap [where len = len]) simp
  have "set_loop os k n c i len r state =
      set_loop os k m (toggle state s c) (i + of_nat (2 + length s)) len
        (r\<lparr>br_buf := concat (map enc_name ss) @ rest\<rparr>) state"
    unfolding n using Cons.prems by (intro set_loop_step [OF _ _ i]) simp_all
  also have "\<dots> = Ret (toggle_all state ss (toggle state s c), r\<lparr>br_buf := rest\<rparr>)"
    using Cons.prems n i' by (subst Cons.IH) (simp_all del: of_nat_add)
  finally show ?case by simp
qed

text \<open>A toggle request of a client: the command and the names in its body.\<close>

definition toggle_frame_of :: "bool \<times> rstring list \<Rightarrow> bytes" where
  "toggle_frame_of q =
     enc_frame (cmd_as_u16 (if fst q then TracepointEnableRequest else TracepointDisableRequest),
       concat (map enc_name (snd q)))"

definition request_ok :: "bool \<times> rstring list \<Rightarrow> bool" where
  "request_ok q \<longleftrightarrow> list_all wire_name (snd q) \<and> length (concat (map enc_name (snd q))) < 4294967296"

definition run_requests :: "(bool \<times> rstring list) list \<Rightarrow> 'w TracerContext \<Rightarrow> 'w TracerContext" where
  "run_requests qs c = fold (\<lambda>(state, ss). toggle_all state ss) qs c"

lemma run_requests_simps [simp]:
  "run_requests [] c = c"
  "run_requests (q # qs) c = run_requests qs (toggle_all (fst q) (snd q) c)"
  by (simp_all add: run_requests_def split_beta)

lemma run_requests_world:
  "run_requests qs (c\<lparr>world := w\<rparr>) = (run_requests qs c)\<lparr>world := w\<rparr>"
  by (induction qs arbitrary: c) (simp_all add: toggle_all_world)

lemma run_requests_frame [simp]:
  "world (run_requests qs c) = world c" "connection (run_requests qs c) = connection c"
  by (induction qs arbitrary: c) simp_all

lemma execute_toggle:
  assumes "request_ok (state, ss)" and "br_buf r = concat (map enc_name ss) @ rest"
    and "length ss < k" and "2 \<le> k"
  shows "execute_command os k c
      (if state then TracepointEnableRequest else TracepointDisableRequest)
      (of_nat (length (concat (map enc_name ss)))) r =
    Ret (toggle_all state ss c, r\<lparr>br_buf := rest\<rparr>)"
proof -
  have "unat (of_nat (length (concat (map enc_name ss))) :: u32) = length (concat (map enc_name ss))"
    using assms(1) by (intro unat_of_nat_less) (simp add: request_ok_def)
  with assms show ?thesis
    by (simp add: set_tracepoints_def set_loop_names request_ok_def)
qed

lemma receive_loop_request:
  assumes "request_ok q" and "br_buf r = toggle_frame_of q @ rest"
    and "length (snd q) < k" and "2 \<le> k"
  shows "receive_loop os k (Suc n) c r =
    receive_loop os k n (toggle_all (fst q) (snd q) c) (r\<lparr>br_buf := rest\<rparr>)"
proof -
  obtain state ss where q: "q = (state, ss)" by (cases q)
  let ?body = "concat (map enc_name ss)"
  let ?cmd = "if state then TracepointEnableRequest else TracepointDisableRequest"
  let ?h = "take 12 (enc_frame (cmd_as_u16 ?cmd, ?body))"
  have frame: "enc_frame (cmd_as_u16 ?cmd, ?body) = ?h @ ?body"
    by simp
  have len: "length ?h = 12" by simp
  have buf: "br_buf r = ?h @ ?body @ rest"
    using assms(2) frame by (simp add: toggle_frame_of_def q del: enc_frame.simps)
  have rd: "read_exact os k (world c) r 12 = Ret (world c, r\<lparr>br_buf := ?body @ rest\<rparr>, Inr ?h)"
    using read_exact_buffered [of 12 r k os "world c"] assms(4) buf len
    by (simp del: enc_frame.simps)
  have parse: "snd (check_parse_header ?h) = Some (?cmd, of_nat (length ?body))"
    using assms(1) by (intro check_parse_header_enc_frame) (simp add: request_ok_def q)
  have exec: "execute_command os k c ?cmd (of_nat (length ?body)) (r\<lparr>br_buf := ?body @ rest\<rparr>) =
      Ret (toggle_all state ss c, r\<lparr>br_buf := rest\<rparr>)"
    using assms q by (subst execute_toggle) simp_all
  show ?thesis
    using exec by (simp add: rd parse q Let_def del: enc_frame.simps execute_command.simps)
qed

lemma receive_loop_requests:
  "\<lbrakk>list_all request_ok qs; br_buf r = concat (map toggle_frame_of qs) @ rest;
    \<forall>q \<in> set qs. length (snd q) < k; 2 \<le> k\<rbrakk> \<Longrightarrow>
   receive_loop os k (length qs + n) c r = receive_loop os k n (run_requests qs c) (r\<lparr>br_buf := rest\<rparr>)"
proof (induction qs arbitrary: c r)
  case Nil
  then show ?case by (metis append_Nil bufreader.surjective bufreader.update_convs(2) concat.simps(1)
      list.map(1) list.size(3) plus_nat.add_0 run_requests_simps(1))
next
  case (Cons q qs)
  have "receive_loop os k (length (q # qs) + n) c r =
      receive_loop os k (length qs + n) (toggle_all (fst q) (snd q) c)
        (r\<lparr>br_buf := concat (map toggle_frame_of qs) @ rest\<rparr>)"
    using Cons.prems by (simp only: list.size add_Suc add_Suc_right add_0_right, intro receive_loop_request)
      simp_all
  also have "\<dots> = receive_loop os k n (run_requests (q # qs) c) (r\<lparr>br_buf := rest\<rparr>)"
    using Cons.prems by (subst Cons.IH) simp_all
  finally show ?case .
qed

section \<open>Input from the socket\<close>

lemma length_toggle_frame_of: "12 \<le> length (toggle_frame_of q)"
  by (simp add: toggle_frame_of_def length_enc_frame del: enc_frame.simps)

text \<open>The first portion of at least a header behaves as if it had been in the buffer.\<close>

lemma receive_loop_fill:
  assumes "os_read os (world c) t REC_BUF_SZ = (w, Inr bs)" and "12 \<le> length bs" and "2 \<le> k"
  shows "receive_loop os k (Suc n) c (br_new t) =
    receive_loop os k (Suc n) (c\<lparr>world := w\<rparr>) \<lparr>br_stream = t, br_buf = bs\<rparr>"
proof -
  have "read_exact os k (world c) (br_new t) 12 =
      Ret (w, (br_new t)\<lparr>br_buf := drop 12 bs\<rparr>, Inr (take 12 bs))"
    using assms by (intro read_exact_refill) (simp_all add: br_new_def)
  moreover have "read_exact os k w \<lparr>br_stream = t, br_buf = bs\<rparr> 12 =
      Ret (w, \<lparr>br_stream = t, br_buf = drop 12 bs\<rparr>, Inr (take 12 bs))"
    using read_exact_buffered [of 12 "\<lparr>br_stream = t, br_buf = bs\<rparr>" k os w] assms by simp
  ultimately show ?thesis by (simp add: br_new_def)
qed

lemma receive_loop_blocked:
  assumes "br_buf r = []" and "os_read os (world c) (br_stream r) REC_BUF_SZ = (w, Inl WouldBlock)"
    and "0 < k"
  shows "receive_loop os k (Suc n) c r = Ret (c\<lparr>world := w\<rparr>)"
  using read_exact_error [OF assms(1,2), of 12 k] assms(3) by simp

lemma receive_requests:
  assumes conn: "connection c = Some s" and clone: "os_try_clone os (world c) s = (w0, Some t)"
    and qs: "qs \<noteq> []" "list_all request_ok qs"
    and data: "os_read os w0 t REC_BUF_SZ = (w1, Inr (concat (map toggle_frame_of qs)))"
    and blocked: "os_read os w1 t REC_BUF_SZ = (w2, Inl WouldBlock)"
    and fuel: "length qs + 2 \<le> k" "\<forall>q \<in> set qs. length (snd q) < k"
  shows "receive os k c = Ret ((run_requests qs c)\<lparr>world := os_drop os w2 t\<rparr>)"
proof -
  obtain q qs' where "qs = q # qs'" using qs(1) by (cases qs) auto
  then have long: "12 \<le> length (concat (map toggle_frame_of qs))"
    using length_toggle_frame_of [of q] by simp
  obtain n where k: "k = length qs + Suc n" using fuel(1) by (metis add_Suc_right add_2_eq_Suc'
      le_Suc_ex add.assoc add.commute plus_1_eq_Suc)
  let ?r = "\<lparr>br_stream = t, br_buf = concat (map toggle_frame_of qs)\<rparr>"
  have "receive_loop os k k (c\<lparr>world := w0\<rparr>) (br_new t) = receive_loop os k k (c\<lparr>world := w1\<rparr>) ?r"
    using receive_loop_fill [of os "c\<lparr>world := w0\<rparr>" t w1 _ k "length qs + n"] data long fuel k
    by simp
  also have "\<dots> = receive_loop os k (length qs + Suc n) (c\<lparr>world := w1\<rparr>) ?r"
    by (simp only: k)
  also have "\<dots> = receive_loop os k (Suc n) (run_requests qs (c\<lparr>world := w1\<rparr>)) (?r\<lparr>br_buf := []\<rparr>)"
    using qs fuel by (intro receive_loop_requests) auto
  also have "\<dots> = Ret ((run_requests qs c)\<lparr>world := w2\<rparr>)"
    using blocked fuel by (subst receive_loop_blocked) (auto simp: run_requests_world)
  finally show ?thesis by (simp add: receive_def conn clone)
qed

text \<open>Fewer than twelve bytes, then nothing for the moment: they are read and dropped.\<close>

lemma read_exact_partial:
  assumes "br_buf r = []" and "os_read os w (br_stream r) REC_BUF_SZ = (w1, Inr bs)"
    and "os_read os w1 (br_stream r) REC_BUF_SZ = (w2, Inl WouldBlock)"
    and "0 < length bs" and "length bs < n" and "n < REC_BUF_SZ" and "2 \<le> k"
  shows "read_exact os k w r n = Ret (w2, r, Inl WouldBlock)"
proof -
  obtain j where k: "k = Suc (Suc j)" using assms(7) by (metis Suc_le_D numeral_2_eq_2 Suc_le_mono)
  have br: "br_read os w r n = (w1, r, Inr bs)"
    using assms by (cases r) (simp add: br_read_def)
  have "read_exact os (Suc j) w1 r (n - length bs) = Ret (w2, r, Inl WouldBlock)"
    using assms by (intro read_exact_error) auto
  with br assms(4,5) show ?thesis unfolding k by (simp del: read_exact.simps(2) add: read_exact.simps(2) [of os "Suc j"])
qed

section \<open>Ill-formed and truncated requests\<close>

lemma read_exact_eof:
  assumes "br_buf r = []" and "os_read os w (br_stream r) REC_BUF_SZ = (w', Inr [])"
    and "0 < n" and "n < REC_BUF_SZ" and "0 < k"
  shows "read_exact os k w r n = Ret (w', r, Inl UnexpectedEof)"
proof -
  have "r\<lparr>br_buf := []\<rparr> = r" using assms(1) by (cases r) simp
  then show ?thesis using assms by (cases k) (auto simp: br_read_def)
qed

text \<open>The end of the stream between two requests.\<close>

lemma receive_eof:
  assumes conn: "connection c = Some s" and clone: "os_try_clone os (world c) s = (w0, Some t)"
    and eof: "os_read os w0 t REC_BUF_SZ = (w1, Inr [])" and k: "0 < k"
  shows "receive os k c = obind (close_and_clean_connection os (c\<lparr>world := w1\<rparr>)) (\<lambda>c'.
    Ret (c'\<lparr>world := os_drop os (world c') t\<rparr>))"
proof -
  obtain n where n: "k = Suc n" using k by (cases k) auto
  have "read_exact os k w0 (br_new t) 12 = Ret (w1, br_new t, Inl UnexpectedEof)"
    using eof k by (intro read_exact_eof) (simp_all add: br_new_def)
  then have "receive_loop os k (Suc n) (c\<lparr>world := w0\<rparr>) (br_new t) =
      close_and_clean_connection os (c\<lparr>world := w1\<rparr>)"
    by simp
  then show ?thesis by (simp add: receive_def conn clone n del: receive_loop.simps)
qed

text \<open>
  A request with an oversized name length closes the connection, and the requests behind it in
  the buffer are still executed.
\<close>

lemma receive_after_violation:
  assumes conn: "connection c = Some s" and clone: "os_try_clone os (world c) s = (w0, Some t)"
    and big: "of_nat MAX_TRACEPOINT_NAME_LEN < name_len" and q: "request_ok q" "length (snd q) < k"
    and data: "os_read os w0 t REC_BUF_SZ =
      (w1, Inr (enc_frame (cmd_as_u16 TracepointEnableRequest, u16_to_be_bytes name_len) @
        toggle_frame_of q))"
    and close: "close_and_clean_connection os (c\<lparr>world := w1\<rparr>) = Ret d"
    and blocked: "os_read os (world d) t REC_BUF_SZ = (w2, Inl WouldBlock)" and k: "3 \<le> k"
  shows "receive os k c = Ret ((toggle_all (fst q) (snd q) d)\<lparr>world := os_drop os w2 t\<rparr>)"
proof -
  obtain n where n: "k = Suc (Suc (Suc n))" using k by (metis Suc_le_D numeral_3_eq_3 Suc_le_mono)
  let ?body = "u16_to_be_bytes name_len"
  let ?h = "take 12 (enc_frame (cmd_as_u16 TracepointEnableRequest, ?body))"
  let ?r = "\<lambda>bs. \<lparr>br_stream = t, br_buf = bs\<rparr>"
  have frame: "enc_frame (cmd_as_u16 TracepointEnableRequest, ?body) = ?h @ ?body" by simp
  have h: "length ?h = 12" by simp
  have data': "os_read os w0 t REC_BUF_SZ = (w1, Inr (?h @ ?body @ toggle_frame_of q))"
    using data frame by (metis append.assoc)
  have parse: "snd (check_parse_header ?h) = Some (TracepointEnableRequest, of_nat (length ?body))"
    by (rule check_parse_header_enc_frame) simp
  have "read_exact os k w1 (?r (?body @ toggle_frame_of q)) 2 =
      Ret (w1, ?r (toggle_frame_of q), Inr ?body)"
    using read_exact_buffered [of 2 "?r (?body @ toggle_frame_of q)" k os w1] k by simp
  then have set: "set_tracepoints os k (c\<lparr>world := w1\<rparr>) (of_nat (length ?body))
      (?r (?body @ toggle_frame_of q)) True = Ret (d, ?r (toggle_frame_of q))"
    using big close n by (simp add: set_tracepoints_def)
  have hd: "read_exact os k w1 (?r (?h @ ?body @ toggle_frame_of q)) 12 =
      Ret (w1, ?r (?body @ toggle_frame_of q), Inr ?h)"
    using read_exact_buffered [of 12 "?r (?h @ ?body @ toggle_frame_of q)" k os w1] k h by simp
  have last: "receive_loop os k (Suc n) (toggle_all (fst q) (snd q) d) (?r []) =
      Ret ((toggle_all (fst q) (snd q) d)\<lparr>world := w2\<rparr>)"
    using blocked k by (intro receive_loop_blocked) simp_all
  have "receive_loop os k (Suc (Suc (Suc n))) (c\<lparr>world := w0\<rparr>) (br_new t) =
      receive_loop os k (Suc (Suc (Suc n))) (c\<lparr>world := w1\<rparr>) (?r (?h @ ?body @ toggle_frame_of q))"
    using receive_loop_fill [of os "c\<lparr>world := w0\<rparr>" t w1 "?h @ ?body @ toggle_frame_of q" k
        "Suc (Suc n)"] data' h k
    by (simp del: enc_frame.simps receive_loop.simps)
  also have "\<dots> = receive_loop os k (Suc (Suc n)) d (?r (toggle_frame_of q))"
    using hd parse set
    by (simp del: enc_frame.simps receive_loop.simps add: receive_loop.simps(2) [of os k "Suc (Suc n)"])
  also have "\<dots> = receive_loop os k (Suc n) (toggle_all (fst q) (snd q) d) (?r [])"
    using receive_loop_request [of q "?r (toggle_frame_of q)" "[]" k os "Suc n" d] q k
    by (simp del: receive_loop.simps)
  also note last
  finally show ?thesis by (simp add: receive_def conn clone n del: receive_loop.simps)
qed

text \<open>
  \<open>stream_ended os t P\<close>: \<open>P\<close> describes worlds in which the peer has ended the stream \<open>t\<close>. A read
  then yields no bytes, and nothing the tracer does brings the stream back.
\<close>

definition stream_ended :: "'w os \<Rightarrow> fd \<Rightarrow> ('w \<Rightarrow> bool) \<Rightarrow> bool" where
  "stream_ended os t P \<longleftrightarrow>
     env_frame os (\<lambda>w w'. P w \<longrightarrow> P w') \<and> (\<forall>w n. P w \<longrightarrow> (\<exists>w'. os_read os w t n = (w', Inr [])))"

lemma stream_ended_read:
  assumes "stream_ended os t P" and "P w"
  obtains w' where "os_read os w t n = (w', Inr [])" and "P w'"
proof -
  obtain w' where w': "os_read os w t n = (w', Inr [])"
    using assms unfolding stream_ended_def by blast
  have "env_frame os (\<lambda>w w'. P w \<longrightarrow> P w')" using assms(1) by (simp add: stream_ended_def)
  from io_frame.E_read [OF env_frame_io [OF this] w'] assms(2) w' that show thesis by blast
qed

lemma stream_ended_close:
  "stream_ended os t P \<Longrightarrow> close_and_clean_connection os c = Ret d \<Longrightarrow> P (world c) \<Longrightarrow> P (world d)"
  using env_frame.E_close [of os "\<lambda>w w'. P w \<longrightarrow> P w'" c d] by (simp add: stream_ended_def)

text \<open>A request for more than is left of an ended stream.\<close>

lemma read_exact_ended:
  assumes "stream_ended os (br_stream r) P" and "P w" and "length (br_buf r) < n"
    and "n < REC_BUF_SZ" and "2 \<le> k"
  shows "\<exists>w'. read_exact os k w r n = Ret (w', r\<lparr>br_buf := []\<rparr>, Inl UnexpectedEof) \<and> P w'"
proof -
  obtain j where k: "k = Suc (Suc j)" using assms(5) by (metis Suc_le_D numeral_2_eq_2 Suc_le_mono)
  obtain w' where w': "os_read os w (br_stream r) REC_BUF_SZ = (w', Inr [])" "P w'"
    by (rule stream_ended_read [OF assms(1,2)])
  show ?thesis
  proof (cases "br_buf r = []")
    case True
    then have "r\<lparr>br_buf := []\<rparr> = r" by (cases r) simp
    with read_exact_eof [OF True w'(1), of n k] assms w'(2) show ?thesis by auto
  next
    case False
    have "read_exact os (Suc j) w (r\<lparr>br_buf := []\<rparr>) (n - length (br_buf r)) =
        Ret (w', r\<lparr>br_buf := []\<rparr>, Inl UnexpectedEof)"
      using w' assms by (intro read_exact_eof) auto
    with False assms(3) w'(2) show ?thesis
      by (auto simp: k br_read_def simp del: read_exact.simps(2) simp: read_exact.simps(2) [of os "Suc j"])
  qed
qed

text \<open>
  The body of a request that ends too early: the names that are complete are set, then the
  connection is closed.
\<close>

lemma set_loop_ended:
  assumes ended: "stream_ended os t P" and k: "2 \<le> k"
  shows "\<lbrakk>list_all wire_name ss; br_stream r = t; br_buf r = take m (concat (map enc_name ss));
    m < length (concat (map enc_name ss)); unat i + length (concat (map enc_name ss)) = unat len;
    length ss < n; connection c \<noteq> None; P (world c)\<rbrakk> \<Longrightarrow>
   \<exists>d. set_loop os k n c i len r state = Ret (d, r\<lparr>br_buf := []\<rparr>) \<and> connection d = None \<and> P (world d)"
proof (induction ss arbitrary: n c i r m)
  case (Cons s ss)
  from Cons.prems(6) obtain n' where n: "n = Suc n'" by (cases n) auto
  have i: "i < len" using Cons.prems(5) by (simp add: word_less_nat_alt)
  have s: "length s \<le> 32" using Cons.prems(1) by (simp add: wire_name_def)
  then have us: "unat (of_nat (length s) :: u16) = length s" by (intro unat_of_nat_less) simp
  then have small: "\<not> (32 :: u16) < of_nat (length s)" using s by (simp add: word_less_nat_alt)
  have close: "\<exists>d. close_and_clean_connection os (c\<lparr>world := w\<rparr>) = Ret d \<and> connection d = None \<and> P (world d)"
    if "P w" for w
  proof -
    obtain d where d: "close_and_clean_connection os (c\<lparr>world := w\<rparr>) = Ret d"
      using close_returns [of "c\<lparr>world := w\<rparr>" os] Cons.prems(7) by auto
    with close_effect(1) [OF d] stream_ended_close [OF ended d] that show ?thesis by simp
  qed
  consider (Name) "length (enc_name s) \<le> m" | (Length) "m < 2" | (Inside) "2 \<le> m" "m < 2 + length s"
    by (simp add: enc_name_def) linarith
  then show ?case
  proof cases
    case Name
    let ?m = "m - length (enc_name s)"
    have i': "unat (i + of_nat (2 + length s)) = unat i + (2 + length s)"
      using Cons.prems(5) by (intro unat_add_no_wrap [where len = len]) simp
    have "set_loop os k n c i len r state =
        set_loop os k n' (toggle state s c) (i + of_nat (2 + length s)) len
          (r\<lparr>br_buf := take ?m (concat (map enc_name ss))\<rparr>) state"
      unfolding n using Cons.prems Name k by (intro set_loop_step [OF _ _ i]) simp_all
    moreover have "\<exists>d. set_loop os k n' (toggle state s c) (i + of_nat (2 + length s)) len
          (r\<lparr>br_buf := take ?m (concat (map enc_name ss))\<rparr>) state =
        Ret (d, r\<lparr>br_buf := take ?m (concat (map enc_name ss))\<rparr>\<lparr>br_buf := []\<rparr>) \<and>
        connection d = None \<and> P (world d)"
      using Cons.prems Name n i' by (intro Cons.IH [where m = ?m]) (simp_all del: of_nat_add)
    ultimately show ?thesis by simp
  next
    case Length
    obtain w where w: "read_exact os k (world c) r 2 = Ret (w, r\<lparr>br_buf := []\<rparr>, Inl UnexpectedEof)" "P w"
      using read_exact_ended [of os r P "world c" 2 k] ended Cons.prems k Length by auto
    with i close [OF w(2)] show ?thesis by (auto simp: n)
  next
    case Inside
    let ?rest = "take (m - 2) s"
    have buf: "br_buf r = u16_to_be_bytes (of_nat (length s)) @ ?rest"
      using Cons.prems(3) Inside by (simp add: enc_name_def take_append)
    have r1: "read_exact os k (world c) r 2 =
        Ret (world c, r\<lparr>br_buf := ?rest\<rparr>, Inr (u16_to_be_bytes (of_nat (length s))))"
      using read_exact_buffered [of 2 r k os "world c"] k buf by simp
    obtain w where w: "read_exact os k (world c) (r\<lparr>br_buf := ?rest\<rparr>) (length s) =
        Ret (w, r\<lparr>br_buf := []\<rparr>, Inl UnexpectedEof)" "P w"
    proof -
      have "m - 2 < length s" using Inside by linarith
      with read_exact_ended [of os "r\<lparr>br_buf := ?rest\<rparr>" P "world c" "length s" k] ended
        Cons.prems(2,8) s k that show thesis by auto
    qed
    with i r1 small us close [OF w(2)] show ?thesis by (auto simp: n Let_def)
  qed
qed simp

text \<open>A request whose header has arrived and whose body ends too early.\<close>

lemma receive_loop_ended:
  assumes ended: "stream_ended os (br_stream r) P" "P (world c)" and conn: "connection c \<noteq> None"
    and q: "request_ok q" "length (snd q) < k"
    and cut: "12 \<le> n" "n < length (toggle_frame_of q)" "br_buf r = take n (toggle_frame_of q)"
    and k: "2 \<le> k"
  shows "receive_loop os k (Suc (Suc j)) c r = Panic ConnectionIsNone"
proof -
  obtain state ss where qs: "q = (state, ss)" by (cases q)
  let ?body = "concat (map enc_name ss)"
  let ?cmd = "if state then TracepointEnableRequest else TracepointDisableRequest"
  let ?h = "take 12 (enc_frame (cmd_as_u16 ?cmd, ?body))"
  let ?r = "r\<lparr>br_buf := take (n - 12) ?body\<rparr>"
  have frame: "toggle_frame_of q = ?h @ ?body" by (simp add: toggle_frame_of_def qs)
  have h: "length ?h = 12" by simp
  have body: "length ?body < 4294967296" "n - 12 < length ?body"
    using q(1) cut by (simp_all add: request_ok_def qs toggle_frame_of_def length_enc_frame
        del: enc_frame.simps)
  have buf: "br_buf r = ?h @ take (n - 12) ?body"
    using cut(1,3) h unfolding frame by (simp del: enc_frame.simps)
  have hd: "read_exact os k (world c) r 12 = Ret (world c, ?r, Inr ?h)"
    using read_exact_buffered [of 12 r k os "world c"] k buf h by (simp del: enc_frame.simps)
  have parse: "snd (check_parse_header ?h) = Some (?cmd, of_nat (length ?body))"
    by (rule check_parse_header_enc_frame [OF body(1)])
  have len: "unat (of_nat (length ?body) :: u32) = length ?body"
    using body(1) by (intro unat_of_nat_less) simp
  obtain d where d: "set_loop os k k c 0 (of_nat (length ?body)) ?r state = Ret (d, ?r\<lparr>br_buf := []\<rparr>)"
    "connection d = None" "P (world d)"
    using set_loop_ended [OF _ k, of os "br_stream r" P ss ?r "n - 12" 0 "of_nat (length ?body)" k c state]
      ended conn q body len by (auto simp: request_ok_def qs)
  have exec: "execute_command os k c ?cmd (of_nat (length ?body)) ?r = Ret (d, r\<lparr>br_buf := []\<rparr>)"
    using d(1) by (cases state) (simp_all add: set_tracepoints_def)
  obtain w where "read_exact os k (world d) (r\<lparr>br_buf := []\<rparr>) 12 =
      Ret (w, r\<lparr>br_buf := []\<rparr>, Inl UnexpectedEof)"
    using read_exact_ended [of os "r\<lparr>br_buf := []\<rparr>" P "world d" 12 k] ended(1) d(3) k by auto
  moreover have "close_and_clean_connection os (d\<lparr>world := w\<rparr>) = Panic ConnectionIsNone"
    using d(2) by (simp add: close_panic_iff)
  ultimately have "receive_loop os k (Suc j) d (r\<lparr>br_buf := []\<rparr>) = Panic ConnectionIsNone" by simp
  with hd parse exec show ?thesis
    by (simp del: enc_frame.simps receive_loop.simps execute_command.simps
        add: receive_loop.simps(2) [of os k "Suc j"])
qed

section \<open>Properties\<close>

text \<open>
  C11. A toggle request. When the body of the request is in the buffer and holds names of at most
  32 bytes of UTF-8, \<^verbatim>\<open>set_tracepoints\<close> consumes exactly this body and returns; every registered
  tracepoint it names gets the requested state, no other cell changes, and unknown names are
  skipped.
\<close>

theorem set_tracepoints_sets:
  assumes "list_all wire_name ss" and "br_buf r = concat (map enc_name ss) @ rest"
    and "unat len = length (concat (map enc_name ss))" and "length ss < k" and "2 \<le> k"
  shows "\<exists>c'. set_tracepoints os k c len r state = Ret (c', r\<lparr>br_buf := rest\<rparr>) \<and>
    (\<forall>a. atomics c' a =
      (if \<exists>s \<in> set ss. hm_get (tracepoints c) s = Some a then state else atomics c a)) \<and>
    world c' = world c \<and> connection c' = connection c \<and> tracepoints c' = tracepoints c"
  using set_loop_names [OF assms(1,2) _ assms(4,5), of 0 len os c state] assms(3)
  by (intro exI [of _ "toggle_all state ss c"]) (simp add: set_tracepoints_def atomics_toggle_all)

theorem set_tracepoints_sets_witness:
  "\<exists>c'. set_tracepoints script_os 3 demo_ctx 7
      \<lparr>br_stream = 7, br_buf = [0, 2, 0x74, 0x70, 0, 1, 0x78, 9]\<rparr> True =
      Ret (c', \<lparr>br_stream = 7, br_buf = [9]\<rparr>) \<and>
    (\<forall>a. atomics c' a =
      (if \<exists>s \<in> set [[0x74, 0x70], [0x78]]. hm_get (tracepoints demo_ctx) s = Some a
       then True else atomics demo_ctx a)) \<and>
    world c' = world demo_ctx \<and> connection c' = connection demo_ctx \<and>
    tracepoints c' = tracepoints demo_ctx"
  using set_tracepoints_sets [of "[[0x74, 0x70], [0x78]]"
      "\<lparr>br_stream = 7, br_buf = [0, 2, 0x74, 0x70, 0, 1, 0x78, 9]\<rparr>" "[9]" 7 3 script_os demo_ctx True]
  by (simp add: wire_name_def enc_name_def be_eval is_ascii_valid)

text \<open>
  C5. A session. When a readiness event delivers a sequence of complete toggle requests, \<^verbatim>\<open>receive\<close>
  executes all of them in the order they were sent and returns; apart from the toggled cells
  and the state of the sockets nothing changes.
\<close>

theorem receive_executes_requests:
  assumes "connection c = Some s" and "os_try_clone os (world c) s = (w0, Some t)"
    and "qs \<noteq> []" and "list_all request_ok qs"
    and "os_read os w0 t REC_BUF_SZ = (w1, Inr (concat (map toggle_frame_of qs)))"
    and "os_read os w1 t REC_BUF_SZ = (w2, Inl WouldBlock)"
    and "length qs + 2 \<le> k" and "\<forall>q \<in> set qs. length (snd q) < k"
  shows "\<exists>c'. receive os k c = Ret c' \<and> connection c' = Some s \<and>
    c' = (fold (\<lambda>(state, ss). fold (toggle state) ss) qs c)\<lparr>world := os_drop os w2 t\<rparr>"
proof -
  have "fold (\<lambda>(state, ss). fold (toggle state) ss) qs c = run_requests qs c"
    by (simp add: run_requests_def toggle_all_def [abs_def])
  with receive_requests [OF assms] assms(1) show ?thesis by simp
qed

theorem receive_executes_requests_witness:
  "\<exists>c'. receive script_os 5 (demo_ctx\<lparr>world := idle_script\<lparr>sc_reads :=
        [Inr (concat (map toggle_frame_of [(True, [demo_name, [0x78]]), (False, [demo_name])]))]\<rparr>\<rparr>) =
      Ret c' \<and> connection c' = Some 7 \<and> \<not> atomics c' 1 \<and> world c' = idle_script"
proof -
  let ?qs = "[(True, [demo_name, [0x78]]), (False, [demo_name])]"
  let ?w = "idle_script\<lparr>sc_reads := [Inr (concat (map toggle_frame_of ?qs))]\<rparr>"
  have "\<exists>c'. receive script_os 5 (demo_ctx\<lparr>world := ?w\<rparr>) = Ret c' \<and> connection c' = Some 7 \<and>
      c' = (fold (\<lambda>(state, ss). fold (toggle state) ss) ?qs (demo_ctx\<lparr>world := ?w\<rparr>))
        \<lparr>world := os_drop script_os idle_script 7\<rparr>"
  proof (rule receive_executes_requests [where ?w0.0 = ?w and ?w1.0 = idle_script and t = 7])
    show "list_all request_ok ?qs"
      by (simp add: request_ok_def wire_name_def demo_name_eq is_ascii_valid)
  qed (simp_all add: toggle_frame_of_def
      length_enc_frame demo_name_eq del: enc_frame.simps)
  then show ?thesis by (simp add: toggle_def)
qed

text \<open>
  C22. A client that ends the stream between two requests is let go: the connection is closed, and the
  flag and all its tracepoints are off.
\<close>

theorem receive_eof_closes:
  assumes "connection c = Some s" and "os_try_clone os (world c) s = (w0, Some t)"
    and "os_read os w0 t REC_BUF_SZ = (w1, Inr [])" and "0 < k" and "hm_wf (tracepoints c)"
  shows "\<exists>c'. receive os k c = Ret c' \<and> connection c' = None \<and> \<not> atomics c' (client_connected c') \<and>
    (\<forall>x a. hm_get (tracepoints c') x = Some a \<longrightarrow> \<not> atomics c' a)"
proof -
  obtain d where d: "close_and_clean_connection os (c\<lparr>world := w1\<rparr>) = Ret d"
    using close_returns [of "c\<lparr>world := w1\<rparr>" os] assms(1) by auto
  note effect = close_effect [OF d]
  have "a \<in> set (hm_values (tracepoints c))" if "hm_get (tracepoints c) x = Some a" for x a
    by (rule hm.get_in_values [OF assms(5) that])
  with effect have "\<forall>x a. hm_get (tracepoints d) x = Some a \<longrightarrow> \<not> atomics d a" by simp
  with effect d receive_eof [OF assms(1-4)] show ?thesis by simp
qed

theorem receive_eof_closes_witness:
  "\<exists>c'. receive script_os 1 (demo_ctx\<lparr>world := idle_script\<lparr>sc_reads := [Inr []]\<rparr>\<rparr>) = Ret c' \<and>
    connection c' = None \<and> \<not> atomics c' (client_connected c') \<and>
    (\<forall>x a. hm_get (tracepoints c') x = Some a \<longrightarrow> \<not> atomics c' a)"
  by (rule receive_eof_closes [where ?w0.0 = "idle_script\<lparr>sc_reads := [Inr []]\<rparr>" and t = 7
        and ?w1.0 = idle_script]) simp_all

text \<open>
  C25. A header that arrives in two pieces is lost. When fewer than twelve bytes are there and the
  socket then would block, \<^verbatim>\<open>receive\<close> returns without an error, the bytes are gone with the
  reader, and the context is as before.
\<close>

theorem receive_drops_partial_header:
  assumes conn: "connection c = Some s" and clone: "os_try_clone os (world c) s = (w0, Some t)"
    and "os_read os w0 t REC_BUF_SZ = (w1, Inr bs)" and "0 < length bs" and "length bs < 12"
    and "os_read os w1 t REC_BUF_SZ = (w2, Inl WouldBlock)" and "2 \<le> k"
  shows "receive os k c = Ret (c\<lparr>world := os_drop os w2 t\<rparr>)"
proof -
  obtain n where k: "k = Suc n" using assms(7) by (cases k) auto
  have "read_exact os k w0 (br_new t) 12 = Ret (w2, br_new t, Inl WouldBlock)"
    using assms by (intro read_exact_partial) (simp_all add: br_new_def)
  then have "receive_loop os k (Suc n) (c\<lparr>world := w0\<rparr>) (br_new t) = Ret (c\<lparr>world := w2\<rparr>)"
    by simp
  then show ?thesis by (simp add: receive_def conn clone k)
qed

theorem receive_drops_partial_header_witness:
  "receive script_os 2 (demo_ctx\<lparr>world := idle_script\<lparr>sc_reads := [Inr (take 7 (toggle_frame_of (True, [demo_name])))]\<rparr>\<rparr>) =
     Ret demo_ctx"
proof -
  let ?bs = "take 7 (toggle_frame_of (True, [demo_name]))"
  let ?w = "idle_script\<lparr>sc_reads := [Inr ?bs]\<rparr>"
  have "receive script_os 2 (demo_ctx\<lparr>world := ?w\<rparr>) =
      Ret (demo_ctx\<lparr>world := ?w, world := os_drop script_os idle_script 7\<rparr>)"
    by (rule receive_drops_partial_header [where ?w0.0 = ?w and ?w1.0 = idle_script and bs = ?bs])
      (simp_all add: toggle_frame_of_def
        length_enc_frame del: enc_frame.simps)
  then show ?thesis by (simp add: demo_ctx_def)
qed

text \<open>
  C23. A client that ends the stream inside a toggle request crashes the tracer thread. Any number of
  complete requests may come first; the last one, enabling or disabling, is cut anywhere behind
  its header. The end of the stream closes the connection in \<^verbatim>\<open>set_tracepoints\<close>; the loop of
  \<^verbatim>\<open>receive\<close> goes on, sees the end again and closes a connection that is no longer there.
\<close>

theorem receive_truncated_panics:
  assumes conn: "connection c = Some s" and clone: "os_try_clone os (world c) s = (w0, Some t)"
    and qs: "list_all request_ok (qs @ [q])" and cut: "12 \<le> n" "n < length (toggle_frame_of q)"
    and data: "os_read os w0 t REC_BUF_SZ =
      (w1, Inr (concat (map toggle_frame_of qs) @ take n (toggle_frame_of q)))"
    and ended: "stream_ended os t P" "P w1"
    and fuel: "length qs + 2 \<le> k" "\<forall>x \<in> set (qs @ [q]). length (snd x) < k"
  shows "receive os k c = Panic ConnectionIsNone"
proof -
  define j where "j = k - length qs - 2"
  have k: "k = length qs + Suc (Suc j)" using fuel(1) by (simp add: j_def)
  let ?data = "concat (map toggle_frame_of qs) @ take n (toggle_frame_of q)"
  let ?r = "\<lambda>bs. \<lparr>br_stream = t, br_buf = bs\<rparr>"
  have long: "12 \<le> length ?data" using cut by simp
  have "receive_loop os k k (c\<lparr>world := w0\<rparr>) (br_new t) =
      receive_loop os k k (c\<lparr>world := w1\<rparr>) (?r ?data)"
    using receive_loop_fill [of os "c\<lparr>world := w0\<rparr>" t w1 ?data k "length qs + Suc j"] data long k
    by (simp del: receive_loop.simps)
  also have "\<dots> = receive_loop os k (length qs + Suc (Suc j)) (c\<lparr>world := w1\<rparr>) (?r ?data)"
    by (simp only: k)
  also have "\<dots> = receive_loop os k (Suc (Suc j)) (run_requests qs (c\<lparr>world := w1\<rparr>))
      ((?r ?data)\<lparr>br_buf := take n (toggle_frame_of q)\<rparr>)"
    using qs fuel by (intro receive_loop_requests) auto
  also have "\<dots> = Panic ConnectionIsNone"
    using ended conn qs fuel cut by (intro receive_loop_ended [where P = P]) auto
  finally show ?thesis by (simp add: receive_def conn clone)
qed

lemma script_stream_ended: "stream_ended script_os t (\<lambda>w. sc_reads w = [] \<and> sc_eof w)"
proof -
  have read: "script_read w s n = (w', res) \<Longrightarrow> sc_reads w = [] \<Longrightarrow> w' = w" for w s n w' res
    by simp
  have wr: "script_write w s bs = (w', res) \<Longrightarrow> sc_reads w' = sc_reads w \<and> sc_eof w' = sc_eof w"
    for w s bs w' res
    by (auto simp: script_write_def split: list.splits sum.splits)
  have poll: "script_timer_poll w = (w', i) \<Longrightarrow> sc_reads w' = sc_reads w \<and> sc_eof w' = sc_eof w"
    for w w' i
    by (auto simp: script_timer_poll_def split: list.splits)
  have "env_frame script_os (\<lambda>w w'. sc_reads w = [] \<and> sc_eof w \<longrightarrow> sc_reads w' = [] \<and> sc_eof w')"
    by unfold_locales (auto dest: wr poll read split: list.splits)
  then show ?thesis by (simp add: stream_ended_def)
qed

theorem receive_truncated_panics_witness:
  "receive script_os 3 (demo_ctx\<lparr>world := idle_script\<lparr>sc_eof := True, sc_reads :=
       [Inr (toggle_frame_of (True, [demo_name]) @ take 15 (toggle_frame_of (False, [demo_name])))]\<rparr>\<rparr>) =
     Panic ConnectionIsNone"
  by (rule receive_truncated_panics [OF _ _ _ _ _ _ script_stream_ended, where qs = "[(True, [demo_name])]"
        and q = "(False, [demo_name])" and n = 15 and t = 7 and s = 7
        and ?w0.0 = "idle_script\<lparr>sc_eof := True, sc_reads := [Inr (toggle_frame_of (True, [demo_name]) @
          take 15 (toggle_frame_of (False, [demo_name])))]\<rparr>"
        and ?w1.0 = "idle_script\<lparr>sc_eof := True, sc_reads := []\<rparr>"])
    (simp_all add: toggle_frame_of_def length_enc_frame demo_name_eq request_ok_def wire_name_def
      is_ascii_valid del: enc_frame.simps)

text \<open>
  C24. The requests behind a protocol violation are still executed: after an oversized name length
  has closed the connection, an enable request in the same portion of input leaves its
  tracepoints enabled although no client is connected.
\<close>

theorem violation_leaves_enabled:
  assumes "connection c = Some s" and "os_try_clone os (world c) s = (w0, Some t)"
    and "of_nat MAX_TRACEPOINT_NAME_LEN < name_len" and "request_ok (True, ss)" and "length ss < k"
    and "os_read os w0 t REC_BUF_SZ =
      (w1, Inr (enc_frame (cmd_as_u16 TracepointEnableRequest, u16_to_be_bytes name_len) @
        toggle_frame_of (True, ss)))"
    and "close_and_clean_connection os (c\<lparr>world := w1\<rparr>) = Ret d"
    and "os_read os (world d) t REC_BUF_SZ = (w2, Inl WouldBlock)" and "3 \<le> k"
  shows "\<exists>c'. receive os k c = Ret c' \<and> connection c' = None \<and>
    (\<forall>s a. s \<in> set ss \<longrightarrow> hm_get (tracepoints c) s = Some a \<longrightarrow> atomics c' a)"
  using receive_after_violation [OF assms(1,2,3,4) _ assms(6-9)] assms(5) close_effect(1,11) [OF assms(7)]
  by (auto simp: atomics_toggle_all)

theorem violation_leaves_enabled_witness:
  "\<exists>c'. receive script_os 3 (demo_ctx\<lparr>world := idle_script\<lparr>sc_reads :=
       [Inr (enc_frame (3, [0, 33]) @ toggle_frame_of (True, [demo_name]))]\<rparr>\<rparr>) = Ret c' \<and>
     connection c' = None \<and> atomics c' 1"
proof -
  let ?bs = "enc_frame (3, [0, 33]) @ toggle_frame_of (True, [demo_name])"
  let ?w = "idle_script\<lparr>sc_reads := [Inr ?bs]\<rparr>"
  obtain d where d: "close_and_clean_connection script_os
      (demo_ctx\<lparr>world := ?w, world := idle_script\<rparr>) = Ret d"
    using close_returns [of "demo_ctx\<lparr>world := idle_script\<rparr>" script_os] by auto
  have "sc_reads (world d) = []" "\<not> sc_eof (world d)" using script_close_world [OF d] by auto
  then have blocked: "os_read script_os (world d) 7 REC_BUF_SZ = (world d, Inl WouldBlock)"
    by simp
  have "\<exists>c'. receive script_os 3 (demo_ctx\<lparr>world := ?w\<rparr>) = Ret c' \<and> connection c' = None \<and>
    (\<forall>s a. s \<in> set [demo_name] \<longrightarrow>
      hm_get (tracepoints (demo_ctx\<lparr>world := ?w\<rparr>)) s = Some a \<longrightarrow> atomics c' a)"
    by (rule violation_leaves_enabled [OF _ _ _ _ _ _ d blocked, of 7 ?w 33])
      (simp_all add: toggle_frame_of_def be_eval
        length_enc_frame demo_name_eq request_ok_def wire_name_def is_ascii_valid del: enc_frame.simps)
  then show ?thesis by simp
qed

end
