(* ===== verification/Tcp_Progress.thy ===== *)
theory Tcp_Progress
  imports Tcp_Receiving
begin

text \<open>
  Receiving ends. Every loop of the receiving half of \<^verbatim>\<open>tcp_handler.rs\<close> uses up input, so on a
  finite input it returns or panics within the fuel given; and whatever a client sends, only
  the connection, the timers and the cells of the registered tracepoints and of the flag can
  change.
\<close>

section \<open>What a client can change\<close>

text \<open>
  \<open>serves a c\<close>: how the context \<open>c\<close> may differ from the context \<open>a\<close> in which \<^verbatim>\<open>receive\<close> was
  called.
\<close>

definition serves :: "'w TracerContext \<Rightarrow> 'w TracerContext \<Rightarrow> bool" where
  "serves a c \<longleftrightarrow>
     same_setup a c \<and> buffer c = buffer a \<and> buffer_occupancy c = buffer_occupancy a \<and>
     (\<forall>x. x \<noteq> client_connected a \<longrightarrow> x \<notin> ran (hm_get (tracepoints a)) \<longrightarrow> atomics c x = atomics a x) \<and>
     (connection c = connection a \<and> queue_timeout c = queue_timeout a \<and>
        udp_timeout c = udp_timeout a \<and>
        atomics c (client_connected a) = atomics a (client_connected a) \<or>
      connection c = None \<and> queue_timeout c = None \<and> udp_timeout c \<noteq> None \<and>
        \<not> atomics c (client_connected a))"

lemma serves_record:
  fixes a c :: "'w TracerContext"
  assumes "serves a c"
  shows "c = a\<lparr>world := world c, atomics := atomics c, connection := connection c,
      queue_timeout := queue_timeout c, udp_timeout := udp_timeout c\<rparr>"
  using assms by (cases a; cases c) (simp add: serves_def same_setup_def)

lemma serves_conn:
  assumes wf: "hm_wf (tracepoints a)" and own: "client_connected a \<notin> ran (hm_get (tracepoints a))"
  shows "conn_invariant os any_world (serves a)"
proof (intro conn_invariant.intro conn_invariant_axioms.intro env_frame_io any.env_frame_axioms, goal_cases)
  case (1 c w)
  then show ?case by (simp add: serves_def same_setup_def)
next
  case (2 c c')
  have "set (hm_values (tracepoints c)) = ran (hm_get (tracepoints a))"
    using hm.values_ran [OF wf] 2(1) by (simp add: serves_def same_setup_def)
  with 2(1) close_effect [OF 2(2)] show ?case by (simp add: serves_def same_setup_def)
next
  case (3 c s x b)
  then have "x \<in> ran (hm_get (tracepoints a))" by (auto simp: serves_def same_setup_def ran_def)
  with own 3(1) show ?case by (auto simp: serves_def same_setup_def)
qed

lemma serves_refl: "serves c c"
  by (simp add: serves_def same_setup_def)

section \<open>Termination\<close>

text \<open>Either a result with a property, or the panic of a connection that is already closed.\<close>

definition ends_with :: "'a outcome \<Rightarrow> ('a \<Rightarrow> bool) \<Rightarrow> bool" where
  "ends_with x Q \<longleftrightarrow> x = Panic ConnectionIsNone \<or> (\<exists>y. x = Ret y \<and> Q y)"

lemma ends_with_Ret [simp]: "ends_with (Ret y) Q \<longleftrightarrow> Q y"
  by (simp add: ends_with_def)

lemma ends_with_obind:
  assumes "ends_with x Q" and "\<And>y. Q y \<Longrightarrow> ends_with (f y) R"
  shows "ends_with (obind x f) R"
  using assms(1) assms(2) by (cases x) (auto simp: ends_with_def)

lemma ends_with_mono: "ends_with x Q \<Longrightarrow> (\<And>y. Q y \<Longrightarrow> R y) \<Longrightarrow> ends_with x R"
  by (auto simp: ends_with_def)

text \<open>The input left to a reader: what the peer still has and what is buffered.\<close>

definition pending :: "('w \<Rightarrow> nat) \<Rightarrow> 'w \<Rightarrow> bufreader \<Rightarrow> nat" where
  "pending budget w r = budget w + length (br_buf r)"

lemma read_exact_pending:
  assumes "finite_input os budget" and "pending budget w r < k" and "n < REC_BUF_SZ"
  obtains w' r' e where "read_exact os k w r n = Ret (w', r', Inl e)" "pending budget w' r' \<le> pending budget w r"
  | w' r' bs where "read_exact os k w r n = Ret (w', r', Inr bs)" "length bs = n"
      "pending budget w' r' + n \<le> pending budget w r"
proof -
  obtain w' r' res where rd: "read_exact os k w r n = Ret (w', r', res)"
    "budget w' + length (br_buf r') + (case res of Inl _ \<Rightarrow> 0 | Inr bs \<Rightarrow> length bs) \<le>
      budget w + length (br_buf r)"
    using read_exact_returns [OF assms(1), of w r k n] assms(2) by (auto simp: pending_def)
  show thesis
  proof (cases res)
    case (Inl e)
    with rd that(1) show thesis by (simp add: pending_def)
  next
    case (Inr bs)
    with rd(1) have "length bs = n" using read_exact_length [of os k w r n w' r' bs] assms(3) by simp
    with Inr rd that(2) show thesis by (simp add: pending_def)
  qed
qed

lemma close_ends:
  assumes "finite_input os budget"
  shows "ends_with (close_and_clean_connection os c) (\<lambda>c'. budget (world c') \<le> budget (world c))"
proof (cases "close_and_clean_connection os c")
  case (Ret c')
  with env_frame.E_close [OF finite_input_frame [OF assms] Ret] show ?thesis by simp
next
  case (Panic p)
  then show ?thesis using close_panic_iff [of os c p] by (simp add: ends_with_def)
qed simp_all

lemma close_ends_True: "ends_with (close_and_clean_connection os c) (\<lambda>_. True)"
  by (cases "connection c = None")
    (auto simp: ends_with_def close_panic_iff dest: close_returns [of c os])

text \<open>Closing after a read: the idiom of the error branches of \<^verbatim>\<open>set_tracepoints\<close>.\<close>

lemma close_then_ends:
  assumes "finite_input os budget" and "pending budget (world c) r \<le> N"
  shows "ends_with (obind (close_and_clean_connection os c) (\<lambda>c. Ret (c, r)))
    (\<lambda>(c', r'). pending budget (world c') r' \<le> N)"
  by (rule ends_with_obind [OF close_ends [OF assms(1)]]) (use assms(2) in \<open>simp add: pending_def\<close>)

lemma set_loop_ends:
  assumes law: "finite_input os budget"
  shows "pending budget (world c) r < n \<Longrightarrow> pending budget (world c) r < k \<Longrightarrow>
    ends_with (set_loop os k n c i len r state) (\<lambda>(c', r'). pending budget (world c') r' \<le> pending budget (world c) r)"
proof (induction n arbitrary: c i r)
  case (Suc n)
  let ?N = "pending budget (world c) r"
  have two: "2 < REC_BUF_SZ" by simp
  show ?case
  proof (cases "i < len")
    case True
    from law Suc.prems(2) two show ?thesis
    proof (cases rule: read_exact_pending)
      case (1 w r1 e)
      with True close_then_ends [OF law, of "c\<lparr>world := w\<rparr>" r1 ?N] show ?thesis by simp
    next
      case (2 w r1 arr)
      let ?len = "u16_from_be_bytes arr"
      show ?thesis
      proof (cases "of_nat MAX_TRACEPOINT_NAME_LEN < ?len")
        case big: True
        with True 2 close_then_ends [OF law, of "c\<lparr>world := w\<rparr>" r1 ?N] show ?thesis by simp
      next
        case False
        have small: "unat ?len < REC_BUF_SZ" using False by (simp add: word_less_nat_alt)
        have "pending budget w r1 < k" using 2(3) Suc.prems(2) by simp
        from law this small show ?thesis
        proof (cases rule: read_exact_pending)
          case (1 w2 r2 e)
          with True 2 False close_then_ends [OF law, of "c\<lparr>world := w2\<rparr>" r2 ?N] show ?thesis
            by (simp add: Let_def)
        next
          case rd2: (2 w2 r2 name)
          let ?s = "case from_utf8 name of Some s \<Rightarrow> s | None \<Rightarrow> []"
          let ?c = "case hm_get (tracepoints c) ?s of
              Some a \<Rightarrow> store a state (c\<lparr>world := w2\<rparr>) | None \<Rightarrow> c\<lparr>world := w2\<rparr>"
          have w: "world ?c = w2" by (simp split: option.split)
          have "ends_with (set_loop os k n ?c (i + 2 + ucast ?len) len r2 state)
              (\<lambda>(c', r'). pending budget (world c') r' \<le> pending budget (world ?c) r2)"
            using 2(3) rd2(3) Suc.prems by (intro Suc.IH) (simp_all add: w)
          then have "ends_with (set_loop os k n ?c (i + 2 + ucast ?len) len r2 state)
              (\<lambda>(c', r'). pending budget (world c') r' \<le> ?N)"
            by (rule ends_with_mono) (use 2(3) rd2(3) w in auto)
          with True 2(1) False rd2(1) show ?thesis by (simp add: Let_def)
        qed
      qed
    qed
  qed simp
qed simp

text \<open>\<open>list_reply c\<close>: the reply to a tracepoint list request.\<close>

definition list_reply :: "'w TracerContext \<Rightarrow> bytes" where
  "list_reply c =
     enc_frame (cmd_as_u16 TracepointListReply, concat (map enc_name (hm_keys (tracepoints c))))"

lemma send_tracepoint_list_ends:
  assumes law: "finite_input os budget" and fuel: "budget (world c) + length (list_reply c) < k"
  shows "ends_with (send_tracepoint_list os k c) (\<lambda>c'. budget (world c') \<le> budget (world c))"
proof (cases "connection c = None")
  case True
  then show ?thesis
    by (simp add: send_tracepoint_list_def Let_def send_slices_None ends_with_def)
next
  case False
  let ?msg = "push_front_header (foldl push_name vd_empty (hm_keys (tracepoints c))) TracepointListReply"
  have msg: "contents ?msg = list_reply c"
    by (simp add: list_reply_def contents_push_front_header contents_push_names del: enc_frame.simps)
  obtain w res where w: "send_slices os k c ?msg = Ret (c\<lparr>world := w\<rparr>, res)" "budget w \<le> budget (world c)"
    using send_slices_returns [OF law, of c ?msg k] fuel False msg by auto
  have "ends_with (close_and_clean_connection os (c\<lparr>world := w\<rparr>)) (\<lambda>c'. budget (world c') \<le> budget (world c))"
    by (rule ends_with_mono [OF close_ends [OF law]]) (use w(2) in simp)
  with w show ?thesis by (cases res) (simp_all add: send_tracepoint_list_def Let_def)
qed

lemma execute_command_ends:
  assumes law: "finite_input os budget" and fuel: "pending budget (world c) r + length (list_reply c) < k"
  shows "ends_with (execute_command os k c cmd len r)
    (\<lambda>(c', r'). pending budget (world c') r' \<le> pending budget (world c) r)"
proof -
  have set: "ends_with (set_tracepoints os k c len r state)
      (\<lambda>(c', r'). pending budget (world c') r' \<le> pending budget (world c) r)" for state
    unfolding set_tracepoints_def using fuel by (intro set_loop_ends [OF law]) simp_all
  have list: "ends_with (obind (send_tracepoint_list os k c) (\<lambda>c'. Ret (c', r)))
      (\<lambda>(c', r'). pending budget (world c') r' \<le> pending budget (world c) r)"
    using fuel by (intro ends_with_obind [OF send_tracepoint_list_ends [OF law]])
      (simp_all add: pending_def)
  show ?thesis using set list by (cases cmd) simp_all
qed

lemma read_empty_ends:
  assumes law: "finite_input os budget"
  shows "pending budget (world c) r < k \<Longrightarrow> ends_with (read_empty os k r c) (\<lambda>_. True)"
proof (induction k arbitrary: c r)
  case (Suc k)
  obtain w r1 res where br: "br_read os (world c) r 64 = (w, r1, res)"
    by (cases "br_read os (world c) r 64")
  note b = br_read_budget(1) [OF law br]
  show ?case
  proof (cases res)
    case (Inl e)
    with br close_ends_True [of os "c\<lparr>world := w\<rparr>"] show ?thesis by (simp add: Let_def)
  next
    case (Inr bs)
    have "pending budget w r1 < k" if "bs \<noteq> []"
      using b that Inr Suc.prems by (simp add: pending_def flip: length_greater_0_conv)
    with br Inr Suc.IH [of "c\<lparr>world := w\<rparr>" r1] show ?thesis by (simp add: Let_def)
  qed
qed simp

lemma receive_loop_ends:
  assumes law: "finite_input os budget"
  shows "pending budget (world c) r < n \<Longrightarrow> pending budget (world c) r + length (list_reply c) < k \<Longrightarrow>
    ends_with (receive_loop os k n c r) (\<lambda>_. True)"
proof (induction n arbitrary: c r)
  case (Suc n)
  have twelve: "12 < REC_BUF_SZ" by simp
  have "pending budget (world c) r < k" using Suc.prems(2) by simp
  from law this twelve show ?case
  proof (cases rule: read_exact_pending)
    case (1 w r1 e)
    with close_ends_True [of os "c\<lparr>world := w\<rparr>"] show ?thesis by (simp add: Let_def)
  next
    case (2 w r1 h)
    let ?c = "c\<lparr>world := w\<rparr>"
    show ?thesis
    proof (cases "snd (check_parse_header h)")
      case None
      have "ends_with (obind (close_and_clean_connection os ?c) (\<lambda>c. read_empty os k r1 c)) (\<lambda>_. True)"
        using 2(3) Suc.prems(2)
        by (intro ends_with_obind [OF close_ends [OF law]] read_empty_ends [OF law])
          (simp add: pending_def)
      with 2(1) None show ?thesis by simp
    next
      case (Some p)
      obtain cmd len where p: "p = (cmd, len)" by (cases p)
      let ?x = "execute_command os k ?c cmd len r1"
      have reply: "list_reply ?c = list_reply c" by (simp add: list_reply_def)
      have x: "ends_with ?x (\<lambda>(c', r'). pending budget (world c') r' \<le> pending budget w r1)"
        using execute_command_ends [OF law, of ?c r1 k cmd len] 2(3) Suc.prems(2) reply by simp
      have "ends_with (receive_loop os k n d r2) (\<lambda>_. True)" if "?x = Ret (d, r2)" for d r2
      proof (rule Suc.IH)
        have "pending budget (world d) r2 \<le> pending budget w r1" using x that by simp
        moreover have "tracepoints d = tracepoints c"
          using fixed.execute_command_I [OF _ that, of ?c] by (simp add: same_setup_def)
        ultimately show "pending budget (world d) r2 < n"
          "pending budget (world d) r2 + length (list_reply d) < k"
          using 2(3) Suc.prems by (simp_all add: list_reply_def del: enc_frame.simps)
      qed
      with x have "ends_with (obind ?x (\<lambda>(c, r). receive_loop os k n c r)) (\<lambda>_. True)"
        by (auto simp: ends_with_def)
      with 2(1) Some p show ?thesis by simp
    qed
  qed
qed simp

section \<open>Properties\<close>

text \<open>
  C13. Receiving ends, and a client can change nothing but its own session. On every finite input,
  well-formed or not, \<^verbatim>\<open>receive\<close> either returns or panics on a connection that it has already
  closed; it neither loops nor panics in another way. When it returns, the buffered elements, the
  occupancy counter, the registry, the configuration and every cell other than the flag and the
  registered tracepoints are as before. Either the connection, its flag and both timers are
  untouched, or the connection is closed, the flag off, the queue timer stopped and the
  announcement timer running.
\<close>

theorem receive_total:
  assumes "finite_input os budget" and "flag_ok c" and "connection c = Some s"
    and "os_try_clone os (world c) s = (w0, Some t)"
    and "budget (world c) + length (list_reply c) < k"
  shows "receive os k c = Panic ConnectionIsNone \<or>
    (\<exists>c'. receive os k c = Ret c' \<and>
      c' = c\<lparr>world := world c', atomics := atomics c', connection := connection c',
            queue_timeout := queue_timeout c', udp_timeout := udp_timeout c'\<rparr> \<and>
      (\<forall>x. x \<noteq> client_connected c \<longrightarrow> x \<notin> ran (hm_get (tracepoints c)) \<longrightarrow> atomics c' x = atomics c x) \<and>
      (connection c' = Some s \<and> atomics c' (client_connected c) \<and>
         queue_timeout c' = queue_timeout c \<and> udp_timeout c' = udp_timeout c \<or>
       connection c' = None \<and> \<not> atomics c' (client_connected c) \<and>
         queue_timeout c' = None \<and> udp_timeout c' \<noteq> None))"
proof -
  have flag: "hm_wf (tracepoints c)" "client_connected c \<notin> ran (hm_get (tracepoints c))"
    "atomics c (client_connected c)" using assms(2,3) by (simp_all add: flag_ok_def)
  have "budget w0 \<le> budget (world c)"
    by (rule io_frame.E_try_clone [OF env_frame_io [OF finite_input_frame [OF assms(1)]] assms(4)])
  then have "ends_with (receive_loop os k k (c\<lparr>world := w0\<rparr>) (br_new t)) (\<lambda>_. True)"
    using assms(5) by (intro receive_loop_ends [OF assms(1)])
      (simp_all add: pending_def br_new_def list_reply_def del: enc_frame.simps)
  then have "ends_with (receive os k c) (\<lambda>_. True)"
    using assms(3,4) by (auto simp: receive_def ends_with_def)
  moreover have "serves c c'" if "receive os k c = Ret c'" for c'
    by (rule conn_invariant.receive_I [OF serves_conn [OF flag(1,2)] serves_refl that])
  ultimately consider "receive os k c = Panic ConnectionIsNone"
    | c' where "receive os k c = Ret c'" "serves c c'" by (auto simp: ends_with_def)
  then show ?thesis
  proof cases
    case 2
    from 2(2) flag(3) assms(3) have "connection c' = Some s \<and> atomics c' (client_connected c) \<and>
         queue_timeout c' = queue_timeout c \<and> udp_timeout c' = udp_timeout c \<or>
       connection c' = None \<and> \<not> atomics c' (client_connected c) \<and>
         queue_timeout c' = None \<and> udp_timeout c' \<noteq> None" by (auto simp: serves_def)
    moreover have "\<forall>x. x \<noteq> client_connected c \<longrightarrow> x \<notin> ran (hm_get (tracepoints c)) \<longrightarrow>
        atomics c' x = atomics c x" using 2(2) by (simp add: serves_def)
    ultimately show ?thesis using 2(1) serves_record [OF 2(2)] by blast
  qed simp
qed

theorem receive_total_witness:
  "\<exists>c'. receive script_os 100 (demo_ctx\<lparr>world :=
      idle_script\<lparr>sc_reads := [Inr (toggle_frame_of (True, [demo_name]))]\<rparr>\<rparr>) = Ret c' \<and>
    buffer c' = buffer demo_ctx \<and> buffer_occupancy c' = buffer_occupancy demo_ctx \<and>
    (\<forall>x. x \<noteq> 0 \<longrightarrow> x \<noteq> 1 \<longrightarrow> \<not> atomics c' x)"
proof -
  let ?w = "idle_script\<lparr>sc_reads := [Inr (toggle_frame_of (True, [demo_name]))]\<rparr>"
  let ?c = "demo_ctx\<lparr>world := ?w\<rparr>"
  have ran: "ran (hm_get (tracepoints ?c)) = {1}" by (auto simp: ran_def)
  have flag: "flag_ok ?c" by (auto simp: flag_ok_def ran_def)
  have len: "length (list_reply ?c) = 16" "length (toggle_frame_of (True, [demo_name])) = 16"
    by (simp_all add: list_reply_def toggle_frame_of_def length_enc_frame demo_name_eq
        del: enc_frame.simps)
  have fuel: "script_budget (world ?c) + length (list_reply ?c) < 100"
    by (simp add: len script_budget_def)
  have "receive script_os 100 ?c = Ret ((run_requests [(True, [demo_name])] ?c)\<lparr>world := os_drop script_os idle_script 7\<rparr>)"
    by (rule receive_requests [where s = 7 and ?w0.0 = ?w and ?w1.0 = idle_script])
      (simp_all add: request_ok_def wire_name_def demo_name_eq is_ascii_valid len [unfolded demo_name_eq])
  with receive_total [OF script_os_finite_input flag _ _ fuel, of 7 ?w 7]
  obtain c' where c': "receive script_os 100 ?c = Ret c'"
    "c' = ?c\<lparr>world := world c', atomics := atomics c', connection := connection c',
       queue_timeout := queue_timeout c', udp_timeout := udp_timeout c'\<rparr>"
    "\<forall>x. x \<noteq> client_connected ?c \<longrightarrow> x \<notin> ran (hm_get (tracepoints ?c)) \<longrightarrow> atomics c' x = atomics ?c x"
    by (auto simp del: demo_ctx_simps(10))
  from c'(2) obtain w at n q u where
    "c' = ?c\<lparr>world := w, atomics := at, connection := n, queue_timeout := q, udp_timeout := u\<rparr>" by blast
  then have "buffer c' = buffer demo_ctx" "buffer_occupancy c' = buffer_occupancy demo_ctx" by simp_all
  with c'(1,3) show ?thesis unfolding ran by auto
qed

end
