(* ===== verification/C_Api.thy ===== *)
theory C_Api
  imports Scripted_Env
begin

text \<open>
  The C interface of \<^verbatim>\<open>src/src/lib.rs\<close>: \<^verbatim>\<open>tracy_init\<close>, \<^verbatim>\<open>tracy_register\<close>,
  \<^verbatim>\<open>tracy_tracepoint_enabled\<close>, \<^verbatim>\<open>tracy_submit\<close> and \<^verbatim>\<open>tracy_finit\<close>, with the helpers they
  call. A handle is \<open>None\<close> for NULL. The functions run on the machine the application shares
  with the tracer thread, and so also on a context of the thread. Output on stderr is left out.
\<close>

section \<open>Names\<close>

text \<open>\<open>None\<close> is \<^verbatim>\<open>Err(())\<close>.\<close>

definition fix_tracepoint_str :: "rstring \<Rightarrow> rstring option" where
  "fix_tracepoint_str tracepoint =
     (if \<not> is_ascii tracepoint then None
      else
        let tracepoint =
              (if MAX_TRACEPOINT_NAME_LEN < length tracepoint
               then take MAX_TRACEPOINT_NAME_LEN tracepoint else tracepoint)
        in Some (to_lowercase tracepoint))"

definition rawpt_to_str :: "c_ptr \<Rightarrow> rstring option outcome" where
  "rawpt_to_str cstring =
     (if cstring = None then Ret None
      else obind (cstr_from_ptr cstring) (\<lambda>s. Ret (Some (from_utf8_lossy s))))"

definition string_to_addr :: "'w os \<Rightarrow> rstring \<Rightarrow> sockaddr option" where
  "string_to_addr os s = os_parse_addr os s"

definition rawpt_to_addr :: "'w os \<Rightarrow> c_ptr \<Rightarrow> sockaddr option outcome" where
  "rawpt_to_addr os cstring =
     obind (rawpt_to_str cstring) (\<lambda>s.
       case s of None \<Rightarrow> Ret None | Some s \<Rightarrow> Ret (string_to_addr os s))"

definition tracepoint_enabled ::
  "TracerNg \<Rightarrow> rstring \<Rightarrow> ('w, 'z) machine_scheme \<Rightarrow> bool" where
  "tracepoint_enabled tracey tracepoint m =
     (case hm_get (ng_tracepoints tracey) tracepoint of
        Some truth \<Rightarrow> atomics m truth
      | None \<Rightarrow> False)"

definition send_to_tracer ::
  "'w os \<Rightarrow> ChannelMessage \<Rightarrow> ('w, 'z) machine_scheme \<Rightarrow> ('w, 'z) machine_scheme" where
  "send_to_tracer os chan_msg m = m\<lparr>world := fst (os_chan_send os (world m) chan_msg)\<rparr>"

section \<open>Interface functions\<close>

text \<open>
  \<^verbatim>\<open>tracy_init\<close> returns NULL or a handle; with a handle it spawns the thread, whose arguments
  are returned beside it: the configuration, the shared flag and whether to announce.
\<close>

record spawned =
  sp_init_data :: InitData
  sp_client_connected :: cell
  sp_announce :: bool

definition tracy_init ::
  "'w os \<Rightarrow> (rstring \<Rightarrow> nat) \<Rightarrow> c_ptr \<Rightarrow> c_ptr \<Rightarrow> u32 \<Rightarrow> u32 \<Rightarrow> c_ptr \<Rightarrow> c_ptr \<Rightarrow>
     ('w, 'z) machine_scheme \<Rightarrow> ((TracerNg \<times> spawned) option \<times> ('w, 'z) machine_scheme) outcome"
where
  "tracy_init os h hostname' process_name' buffer_flush_interval announce_interval'
     announce_iface' announce_mcast_addr m =
     (if hostname' = None \<or> process_name' = None \<or> buffer_flush_interval = 0 then Ret (None, m)
      else
        case new_cell False m of (client_connected', m1) \<Rightarrow>
          obind (rawpt_to_str hostname') (\<lambda>host.
          obind (unwrap HostnameBroken host) (\<lambda>host.
          obind (rawpt_to_str process_name') (\<lambda>proc.
          obind (unwrap ProcessNameBroken proc) (\<lambda>proc.
          obind (rawpt_to_str announce_iface') (\<lambda>iface.
          obind (rawpt_to_addr os announce_mcast_addr) (\<lambda>addr.
            let init_data =
                  \<lparr>hostname = host, process_name = proc,
                   send_interval = unat buffer_flush_interval,
                   announce_interval = unat announce_interval',
                   announce_addr = addr, announce_iface = iface\<rparr>;
                tracey =
                  \<lparr>ng_client_connected = client_connected', ng_tracepoints = hm_new h\<rparr>;
                announce = (0 < announce_interval' \<and> iface \<noteq> None \<and> addr \<noteq> None)
            in Ret (Some (tracey,
                     \<lparr>sp_init_data = init_data, sp_client_connected = client_connected',
                      sp_announce = announce\<rparr>), m1))))))))"

definition tracy_register ::
  "'w os \<Rightarrow> TracerNg option \<Rightarrow> c_ptr \<Rightarrow> ('w, 'z) machine_scheme \<Rightarrow>
     (int \<times> TracerNg option \<times> ('w, 'z) machine_scheme) outcome" where
  "tracy_register os tracy tp_name_param m0 =
     (case new_cell False m0 of (tracepoint_state, m) \<Rightarrow>
        case tracy of
          None \<Rightarrow> Ret (-1, tracy, m)
        | Some tracey \<Rightarrow>
            obind (cstr_from_ptr tp_name_param) (\<lambda>raw.
              case fix_tracepoint_str (from_utf8_lossy raw) of
                None \<Rightarrow> Ret (-1, tracy, m)
              | Some tp_name_repaired \<Rightarrow>
                  let tracepoint = \<lparr>tp_name = tp_name_repaired, tp_state = tracepoint_state\<rparr>
                  in if \<not> hm_contains_key (ng_tracepoints tracey) tp_name_repaired then
                       let tracey = tracey\<lparr>ng_tracepoints :=
                             hm_insert (ng_tracepoints tracey) tp_name_repaired tracepoint_state\<rparr>
                       in Ret (0, Some tracey, send_to_tracer os (NewTracepoint tracepoint) m)
                     else Ret (-1, tracy, m)))"

definition tracy_tracepoint_enabled ::
  "TracerNg option \<Rightarrow> c_ptr \<Rightarrow> ('w, 'z) machine_scheme \<Rightarrow> bool outcome" where
  "tracy_tracepoint_enabled tracy tp_name_param m =
     (case tracy of
        None \<Rightarrow> Undefined
      | Some tracey \<Rightarrow>
          obind (cstr_from_ptr tp_name_param) (\<lambda>raw.
            Ret (tracepoint_enabled tracey (from_utf8_lossy raw) m)))"

definition tracy_finit ::
  "'w os \<Rightarrow> TracerNg option \<Rightarrow> ('w, 'z) machine_scheme \<Rightarrow> ('w, 'z) machine_scheme outcome" where
  "tracy_finit os tracey m =
     (case tracey of
        None \<Rightarrow> Undefined
      | Some _ \<Rightarrow> Ret (send_to_tracer os TerminateMsg m))"

text \<open>
  \<open>data\<close> is the memory behind the data pointer; \<^verbatim>\<open>from_raw_parts\<close> reads \<open>data_len\<close> bytes
  of it.
\<close>

definition tracy_submit ::
  "'w os \<Rightarrow> TracerNg option \<Rightarrow> c_ptr \<Rightarrow> bytes option \<Rightarrow> usize \<Rightarrow> ('w, 'z) machine_scheme \<Rightarrow>
     ('w, 'z) machine_scheme outcome" where
  "tracy_submit os tmp_tracey tp_name_param data data_len m =
     (case (tmp_tracey, tp_name_param, data) of
        (Some tracey, Some _, Some mem) \<Rightarrow>
          (if data_len = 0 \<or> of_nat MAX_SUBMIT_LEN < data_len then Ret m
           else if \<not> atomics m (ng_client_connected tracey) then Ret m
           else
             obind (cstr_from_ptr tp_name_param) (\<lambda>raw.
               case fix_tracepoint_str (from_utf8_lossy raw) of
                 None \<Rightarrow> Ret m
               | Some tracepoint_repaired \<Rightarrow>
                   (if \<not> tracepoint_enabled tracey tracepoint_repaired m then Ret m
                    else case os_now os (world m) of (w, now) \<Rightarrow>
                      (if length mem < unat data_len then Undefined
                       else
                         let buffer_element =
                               \<lparr>el_tracepoint = tracepoint_repaired, el_timestamp = now,
                                el_data = take (unat data_len) mem\<rparr>
                         in Ret (send_to_tracer os (Payload buffer_element) (m\<lparr>world := w\<rparr>))))))
      | _ \<Rightarrow> Ret m)"

section \<open>Lemmas\<close>

lemma fix_tracepoint_str_eq:
  "fix_tracepoint_str s =
     (if is_ascii s then Some (to_lowercase (take MAX_TRACEPOINT_NAME_LEN s)) else None)"
  by (simp add: fix_tracepoint_str_def Let_def)

lemma fix_tracepoint_str_name_ok: "fix_tracepoint_str s = Some t \<Longrightarrow> name_ok t"
  by (auto simp: fix_tracepoint_str_eq name_ok_def is_ascii_to_lowercase is_ascii_take split: if_splits)

lemma fix_tracepoint_str_fixed: "name_ok s \<Longrightarrow> fix_tracepoint_str s = Some s"
  by (simp add: fix_tracepoint_str_eq name_ok_def)

text \<open>A name read from C memory is normalised as the bytes themselves would be.\<close>

lemma fix_tracepoint_str_lossy: "fix_tracepoint_str (from_utf8_lossy s) = fix_tracepoint_str s"
  by (cases "is_ascii s") (simp_all add: from_utf8_lossy_ascii fix_tracepoint_str_eq is_ascii_lossy_iff)

lemma new_cell_simps [simp]:
  "fst (new_cell b m) = next_cell m" "world (snd (new_cell b m)) = world m"
  "next_cell (snd (new_cell b m)) = Suc (next_cell m)"
  "atomics (snd (new_cell b m)) = (atomics m)(next_cell m := b)"
  by (simp_all add: new_cell_def)

lemma rawpt_to_str_terminated:
  "0 \<notin> set s \<Longrightarrow> rawpt_to_str (Some (s @ 0 # rest)) = Ret (Some (from_utf8_lossy s))"
  by (simp add: rawpt_to_str_def)

lemma rawpt_to_str_null [simp]: "rawpt_to_str None = Ret None"
  by (simp add: rawpt_to_str_def)

text \<open>A C string: the bytes of \<open>s\<close>, a terminator, and whatever follows in memory.\<close>

abbreviation c_string :: "bytes \<Rightarrow> bytes \<Rightarrow> c_ptr" where
  "c_string s rest \<equiv> Some (s @ 0 # rest)"

definition normal_name :: "bytes \<Rightarrow> rstring" where
  "normal_name s = to_lowercase (take MAX_TRACEPOINT_NAME_LEN s)"

lemma fix_lossy_eq:
  "fix_tracepoint_str (from_utf8_lossy s) = (if is_ascii s then Some (normal_name s) else None)"
  by (simp only: fix_tracepoint_str_lossy) (simp add: fix_tracepoint_str_eq normal_name_def)

lemma name_ok_normal_name: "is_ascii s \<Longrightarrow> name_ok (normal_name s)"
  by (rule fix_tracepoint_str_name_ok [of s]) (simp add: fix_tracepoint_str_eq normal_name_def)

lemma tracy_register_eq:
  assumes "0 \<notin> set s"
  shows "tracy_register os (Some t) (c_string s rest) m =
    (let m1 = m\<lparr>atomics := (atomics m)(next_cell m := False), next_cell := Suc (next_cell m)\<rparr>;
         tp = \<lparr>tp_name = normal_name s, tp_state = next_cell m\<rparr>
     in if is_ascii s \<and> hm_get (ng_tracepoints t) (normal_name s) = None
        then Ret (0, Some (t\<lparr>ng_tracepoints :=
                     hm_insert (ng_tracepoints t) (normal_name s) (next_cell m)\<rparr>),
                  send_to_tracer os (NewTracepoint tp) m1)
        else Ret (-1, Some t, m1))"
  using assms
  by (simp add: tracy_register_def new_cell_def fix_lossy_eq hm_contains_key_def Let_def
      split: option.split)

text \<open>The ways the calls return, for any pointer.\<close>

lemma tracy_register_RetE:
  assumes "tracy_register os (Some h) p m = Ret (r, t, m')"
  obtains (Refused) "t = Some h" "m' = snd (new_cell False m)"
  | (Registered) s where "name_ok s" "hm_get (ng_tracepoints h) s = None"
      "t = Some (h\<lparr>ng_tracepoints := hm_insert (ng_tracepoints h) s (next_cell m)\<rparr>)"
      "m' = send_to_tracer os (NewTracepoint \<lparr>tp_name = s, tp_state = next_cell m\<rparr>)
              (snd (new_cell False m))"
proof -
  obtain raw where raw: "cstr_from_ptr p = Ret raw"
    using assms by (auto simp: tracy_register_def new_cell_def outcome_simps)
  show thesis
  proof (cases "fix_tracepoint_str (from_utf8_lossy raw)")
    case None
    with assms raw show thesis
      by (intro Refused) (simp_all add: tracy_register_def new_cell_def)
  next
    case (Some s)
    show thesis
    proof (cases "hm_get (ng_tracepoints h) s")
      case None
      with assms raw Some show thesis
        by (intro Registered [OF fix_tracepoint_str_name_ok [OF Some] None])
          (simp_all add: tracy_register_def new_cell_def hm_contains_key_def Let_def)
    next
      case (Some a)
      with assms raw \<open>fix_tracepoint_str _ = _\<close> show thesis
        by (intro Refused)
          (simp_all add: tracy_register_def new_cell_def hm_contains_key_def Let_def)
    qed
  qed
qed

lemma tracy_submit_RetE:
  assumes "tracy_submit os (Some h) p d n m = Ret m'"
  obtains (Ignored) "m' = m"
  | (Sent) e w now where "element_ok e" "os_now os (world m) = (w, now)"
      "atomics m (ng_client_connected h)" "tracepoint_enabled h (el_tracepoint e) m"
      "m' = send_to_tracer os (Payload e) (m\<lparr>world := w\<rparr>)"
proof (cases "m' = m")
  case True
  then show thesis by (rule Ignored)
next
  case False
  obtain mem s where d: "d = Some mem" and p: "p = Some s"
    using assms False by (cases d; cases p) (auto simp: tracy_submit_def)
  have len: "n \<noteq> 0" "\<not> of_nat MAX_SUBMIT_LEN < n" and conn: "atomics m (ng_client_connected h)"
    using assms False d p by (auto simp: tracy_submit_def split: if_splits)
  obtain raw s' where raw: "cstr_from_ptr p = Ret raw"
    and fixed: "fix_tracepoint_str (from_utf8_lossy raw) = Some s'"
    and on: "tracepoint_enabled h s' m"
    using assms False d p len conn
    by (auto simp: tracy_submit_def outcome_simps split: option.splits if_splits)
  obtain w now where now: "os_now os (world m) = (w, now)" by (cases "os_now os (world m)")
  let ?e = "\<lparr>el_tracepoint = s', el_timestamp = now, el_data = take (unat n) mem\<rparr>"
  have ret: "\<not> length mem < unat n" "m' = send_to_tracer os (Payload ?e) (m\<lparr>world := w\<rparr>)"
    using assms len conn raw fixed on now unfolding d p
    by (auto simp: tracy_submit_def split: if_splits)
  have "0 < unat n" "unat n \<le> MAX_SUBMIT_LEN"
    using len by (simp_all add: word_less_nat_alt unat_gt_0)
  with fix_tracepoint_str_name_ok [OF fixed] ret(1) have "element_ok ?e"
    by (simp add: element_ok_def)
  with now conn on ret(2) show thesis by (intro Sent) simp_all
qed

section \<open>Properties\<close>

text \<open>
  C32. Names are normalised: a name is refused exactly if it is not ASCII, what is accepted is ASCII,
  in lower case and at most 32 bytes long, and normalising it again changes nothing.
\<close>

theorem fix_tracepoint_str_normalises:
  "(fix_tracepoint_str s = None \<longleftrightarrow> \<not> is_ascii s) \<and>
   (fix_tracepoint_str s = Some t \<longrightarrow>
      is_ascii t \<and> to_lowercase t = t \<and> length t \<le> MAX_TRACEPOINT_NAME_LEN \<and>
      t = take MAX_TRACEPOINT_NAME_LEN (to_lowercase s) \<and> fix_tracepoint_str t = Some t)"
proof -
  have "is_ascii t \<and> to_lowercase t = t \<and> length t \<le> MAX_TRACEPOINT_NAME_LEN \<and>
      t = take MAX_TRACEPOINT_NAME_LEN (to_lowercase s) \<and> fix_tracepoint_str t = Some t"
    if f: "fix_tracepoint_str s = Some t"
  proof -
    have ok: "name_ok t" by (rule fix_tracepoint_str_name_ok [OF f])
    moreover have "t = take MAX_TRACEPOINT_NAME_LEN (to_lowercase s)"
      using f by (simp add: fix_tracepoint_str_eq to_lowercase_take split: if_splits)
    ultimately show ?thesis
      using fix_tracepoint_str_fixed [OF ok] by (simp add: name_ok_def)
  qed
  then show ?thesis by (simp add: fix_tracepoint_str_eq)
qed

theorem fix_tracepoint_str_normalises_witness:
  "fix_tracepoint_str (bytes_of ''Tp'') = Some demo_name \<and> fix_tracepoint_str demo_name = Some demo_name"
proof -
  have f: "fix_tracepoint_str (bytes_of ''Tp'') = Some demo_name"
    by (simp add: fix_tracepoint_str_eq bytes_of_def demo_name_eq to_lowercase_def ascii_lower_def)
  with fix_tracepoint_str_normalises [of "bytes_of ''Tp''" demo_name] show ?thesis by blast
qed

text \<open>
  C7. Submitting, on every branch. With any of the three pointers NULL, \<^verbatim>\<open>tracy_submit\<close> does nothing
  at all. With a terminated name and \<open>data_len\<close> readable bytes it returns: it sends one payload,
  holding the normalised name, the current time and exactly the first \<open>data_len\<close> bytes, if the
  length is between 1 and 2048, a client is connected, the name is ASCII and its tracepoint is
  on; otherwise it does nothing at all. The length is compared as a machine word.
\<close>

theorem tracy_submit_exact:
  assumes "p = None \<or> (\<exists>rest. p = c_string s rest \<and> 0 \<notin> set s)"
    and "\<forall>mem. data = Some mem \<longrightarrow> unat data_len \<le> length mem"
  shows "tracy_submit os tracy p data data_len m =
    (case (tracy, p, data) of
       (Some t, Some _, Some mem) \<Rightarrow>
         (if 0 < unat data_len \<and> unat data_len \<le> MAX_SUBMIT_LEN \<and>
             atomics m (ng_client_connected t) \<and> is_ascii s \<and> tracepoint_enabled t (normal_name s) m
          then Ret (m\<lparr>world := fst (os_chan_send os (fst (os_now os (world m)))
                 (Payload \<lparr>el_tracepoint = normal_name s, el_timestamp = snd (os_now os (world m)),
                           el_data = take (unat data_len) mem\<rparr>))\<rparr>)
          else Ret m)
     | _ \<Rightarrow> Ret m)"
proof (cases "tracy = None \<or> p = None \<or> data = None")
  case True
  then show ?thesis by (auto simp: tracy_submit_def split: option.split)
next
  case False
  then obtain t rest mem where args: "tracy = Some t" "p = c_string s rest" "data = Some mem"
    and s: "0 \<notin> set s" and mem: "unat data_len \<le> length mem"
    using assms by auto
  have zero: "data_len = 0 \<longleftrightarrow> \<not> 0 < unat data_len" by (simp add: unat_eq_0)
  have big: "of_nat MAX_SUBMIT_LEN < data_len \<longleftrightarrow> \<not> unat data_len \<le> MAX_SUBMIT_LEN"
    by (simp add: word_less_nat_alt not_le)
  show ?thesis
    using s mem unfolding tracy_submit_def zero big args
    by (auto simp: fix_lossy_eq send_to_tracer_def split: prod.split)
qed

theorem tracy_submit_exact_witness:
  "tracy_submit script_os
      (Some \<lparr>ng_client_connected = 0, ng_tracepoints = tracepoints demo_ctx\<rparr>)
      (c_string (bytes_of ''TP'') []) (Some [1, 2, 3]) 2 (demo_ctx\<lparr>atomics := (\<lambda>_. True)\<rparr>) =
    Ret (demo_ctx\<lparr>atomics := (\<lambda>_. True), world := idle_script\<lparr>sc_chan :=
      [Payload \<lparr>el_tracepoint = demo_name, el_timestamp = sc_clock idle_script, el_data = [1, 2]\<rparr>]\<rparr>\<rparr>) \<and>
   tracy_submit script_os None (c_string (bytes_of ''TP'') []) (Some [1, 2, 3]) 2 demo_ctx = Ret demo_ctx \<and>
   tracy_submit script_os
      (Some \<lparr>ng_client_connected = 0, ng_tracepoints = tracepoints demo_ctx\<rparr>)
      (c_string (bytes_of ''TP'') []) None 2 demo_ctx = Ret demo_ctx"
proof -
  have n: "normal_name (bytes_of ''TP'') = demo_name"
    by (simp add: normal_name_def bytes_of_def demo_name_eq to_lowercase_def ascii_lower_def)
  have name: "c_string (bytes_of ''TP'') [] = None \<or>
      (\<exists>rest. c_string (bytes_of ''TP'') [] = c_string (bytes_of ''TP'') rest \<and> 0 \<notin> set (bytes_of ''TP''))"
    by (auto simp: bytes_of_def)
  have mem: "\<forall>mem. Some [1, 2, 3 :: u8] = Some mem \<longrightarrow> unat (2 :: usize) \<le> length mem" by simp
  show ?thesis
    using tracy_submit_exact [OF name mem, of script_os
        "Some \<lparr>ng_client_connected = 0, ng_tracepoints = tracepoints demo_ctx\<rparr>" "demo_ctx\<lparr>atomics := (\<lambda>_. True)\<rparr>"]
      tracy_submit_exact [OF name mem, of script_os None demo_ctx]
      tracy_submit_exact [OF name, of None 2 script_os
        "Some \<lparr>ng_client_connected = 0, ng_tracepoints = tracepoints demo_ctx\<rparr>" demo_ctx]
    by (simp add: n tracepoint_enabled_def) (simp add: bytes_of_def)
qed

text \<open>
  C15. Registering succeeds exactly for an ASCII name whose normal form is not registered yet. Then
  the handle and the message to the thread carry the same fresh cell, which is off; in every
  other case the handle is unchanged and nothing is sent.
\<close>

theorem tracy_register_exact:
  assumes "0 \<notin> set s"
  shows "\<exists>r t' m'. tracy_register os (Some t) (c_string s rest) m = Ret (r, Some t', m') \<and>
    (r = 0 \<longleftrightarrow> is_ascii s \<and> normal_name s \<notin> dom (hm_get (ng_tracepoints t))) \<and>
    (r = 0 \<longrightarrow>
      hm_get (ng_tracepoints t') = (hm_get (ng_tracepoints t))(normal_name s \<mapsto> next_cell m) \<and>
      \<not> atomics m' (next_cell m) \<and>
      world m' = fst (os_chan_send os (world m)
        (NewTracepoint \<lparr>tp_name = normal_name s, tp_state = next_cell m\<rparr>))) \<and>
    (r \<noteq> 0 \<longrightarrow> r = -1 \<and> t' = t \<and> world m' = world m) \<and>
    ng_client_connected t' = ng_client_connected t \<and>
    (\<forall>a. a \<noteq> next_cell m \<longrightarrow> atomics m' a = atomics m a)"
  unfolding tracy_register_eq [OF assms] Let_def
  by (auto simp: send_to_tracer_def hm.get_insert domIff)

theorem tracy_register_exact_witness:
  "\<exists>r t' m'. tracy_register script_os
      (Some \<lparr>ng_client_connected = 0, ng_tracepoints = hm_new (\<lambda>_. 0)\<rparr>)
      (c_string (bytes_of ''TP'') []) demo_ctx = Ret (r, Some t', m') \<and> r = 0 \<and>
    hm_get (ng_tracepoints t') demo_name = Some 2"
proof -
  have "normal_name (bytes_of ''TP'') = demo_name" "0 \<notin> set (bytes_of ''TP'')"
    by (simp_all add: normal_name_def bytes_of_def demo_name_eq to_lowercase_def ascii_lower_def)
  then show ?thesis
    using tracy_register_exact [of "bytes_of ''TP''" script_os
        "\<lparr>ng_client_connected = 0, ng_tracepoints = hm_new (\<lambda>_. 0)\<rparr>" "[]" demo_ctx]
    by (fastforce simp: hm.get_new bytes_of_def)
qed

text \<open>
  C38. \<^verbatim>\<open>tracy_tracepoint_enabled\<close> looks its argument up as it is, while \<^verbatim>\<open>tracy_register\<close> and
  \<^verbatim>\<open>tracy_submit\<close> normalise it: for a name that is not in normal form it answers no, whatever
  the state of the tracepoint of that name.
\<close>

theorem enabled_needs_normal_name:
  assumes "\<forall>k \<in> dom (hm_get (ng_tracepoints t)). name_ok k" and "0 \<notin> set s" and "\<not> name_ok s"
  shows "tracy_tracepoint_enabled (Some t) (c_string s rest) m = Ret False"
proof -
  have "from_utf8_lossy s \<notin> dom (hm_get (ng_tracepoints t))"
  proof
    assume "from_utf8_lossy s \<in> dom (hm_get (ng_tracepoints t))"
    then have ok: "name_ok (from_utf8_lossy s)" by (rule bspec [OF assms(1)])
    then have "is_ascii s" by (simp add: name_ok_def is_ascii_lossy_iff)
    with ok assms(3) show False by (simp add: from_utf8_lossy_ascii)
  qed
  then show ?thesis
    using assms(2) by (simp add: tracy_tracepoint_enabled_def tracepoint_enabled_def domIff)
qed

theorem enabled_needs_normal_name_witness:
  "tracy_tracepoint_enabled (Some \<lparr>ng_client_connected = 0, ng_tracepoints = tracepoints demo_ctx\<rparr>)
     (c_string (bytes_of ''TP'') []) (demo_ctx\<lparr>atomics := (\<lambda>_. True)\<rparr>) = Ret False"
  by (rule enabled_needs_normal_name)
    (simp_all add: dom_def demo_name_eq bytes_of_def name_ok_def to_lowercase_def ascii_lower_def)



end
