(* ===== verification/Tracer_System.thy ===== *)
theory Tracer_System
  imports Thread_Properties Tcp_Progress C_Api
begin

text \<open>
  The application and the tracer thread together: calls of the C interface and batches of
  events interleave on one state, the shared cells and the channel included. The invariant
  of the reachable states relates the handle, the channel and the context of the thread.
\<close>

section \<open>States and steps\<close>

text \<open>
  \<open>sys_live\<close>: the handle has not been given to \<^verbatim>\<open>tracy_finit\<close>; \<open>sys_running\<close>: the thread has
  not terminated.
\<close>

record 'w system =
  sys_handle :: TracerNg
  sys_live :: bool
  sys_running :: bool
  sys_ctx :: "'w TracerContext"

inductive tracer_step ::
  "'w os \<Rightarrow> nat \<Rightarrow> ('w \<Rightarrow> ChannelMessage list) \<Rightarrow> 'w system \<Rightarrow> 'w system \<Rightarrow> bool"
  for os k chan where
  Register: "tracer_step os k chan s (s\<lparr>sys_handle := t, sys_ctx := c\<rparr>)"
    if "sys_live s" and "tracy_register os (Some (sys_handle s)) p (sys_ctx s) = Ret (r, Some t, c)"
| Submit: "tracer_step os k chan s (s\<lparr>sys_ctx := c\<rparr>)"
    if "sys_live s" and "tracy_submit os (Some (sys_handle s)) p d n (sys_ctx s) = Ret c"
| Finit: "tracer_step os k chan s (s\<lparr>sys_live := False, sys_ctx := c\<rparr>)"
    if "sys_live s" and "tracy_finit os (Some (sys_handle s)) (sys_ctx s) = Ret c"
| Events: "tracer_step os k chan s (s\<lparr>sys_ctx := c, sys_running := (st \<noteq> Terminate)\<rparr>)"
    if "sys_running s" and "event_handler os k events (sys_ctx s) = Ret (st, c)"
| Outside: "tracer_step os k chan s (s\<lparr>sys_ctx := (sys_ctx s)\<lparr>world := w\<rparr>\<rparr>)"
    if "chan w = chan (world (sys_ctx s))"

inductive reachable ::
  "'w os \<Rightarrow> nat \<Rightarrow> ('w \<Rightarrow> ChannelMessage list) \<Rightarrow> 'w system \<Rightarrow> bool" for os k chan where
  Start: "reachable os k chan \<lparr>sys_handle = t, sys_live = True, sys_running = True, sys_ctx = c\<rparr>"
    if "tracy_init os h host proc flush announce iface addr (m :: 'w machine) = Ret (Some (t, sp), m1)"
      and "chan (world m) = []"
      and "tracer_thread_start os (sp_init_data sp) (sp_client_connected sp) (sp_announce sp) h' m1 = Ret c"
| Step: "reachable os k chan s'"
    if "reachable os k chan s" and "tracer_step os k chan s s'"

section \<open>The invariant\<close>

text \<open>
  \<open>traffic_ok\<close>: whatever is in flight or buffered, \<^verbatim>\<open>tracy_submit\<close> and \<^verbatim>\<open>tracy_register\<close> let
  through. \<open>registry_ok\<close>: the thread knows a part of the tracepoints of the handle, with the
  same cells, and the rest is on its way.
\<close>

definition traffic_ok :: "('w \<Rightarrow> ChannelMessage list) \<Rightarrow> 'w TracerContext \<Rightarrow> bool" where
  "traffic_ok chan c \<longleftrightarrow> buffer_ok c \<and> list_all message_ok (chan (world c))"

definition registry_ok :: "('w \<Rightarrow> ChannelMessage list) \<Rightarrow> TracerNg \<Rightarrow> 'w TracerContext \<Rightarrow> bool" where
  "registry_ok chan h c \<longleftrightarrow>
     hm_get (tracepoints c) \<subseteq>\<^sub>m hm_get (ng_tracepoints h) \<and>
     (\<forall>t. NewTracepoint t \<in> set (chan (world c)) \<longrightarrow>
        hm_get (ng_tracepoints h) (tp_name t) = Some (tp_state t)) \<and>
     (\<forall>s \<in> dom (hm_get (ng_tracepoints h)). s \<in> dom (hm_get (tracepoints c)) \<or>
        (\<exists>t. NewTracepoint t \<in> set (chan (world c)) \<and> tp_name t = s))"

definition handle_ok :: "TracerNg \<Rightarrow> 'w TracerContext \<Rightarrow> bool" where
  "handle_ok h c \<longleftrightarrow>
     ng_client_connected h = client_connected c \<and> hm_wf (ng_tracepoints h) \<and>
     (\<forall>s \<in> dom (hm_get (ng_tracepoints h)). name_ok s) \<and>
     inj_on (hm_get (ng_tracepoints h)) (dom (hm_get (ng_tracepoints h))) \<and>
     client_connected c \<notin> ran (hm_get (ng_tracepoints h)) \<and>
     (\<forall>a \<in> insert (client_connected c) (ran (hm_get (ng_tracepoints h))). a < next_cell c)"

definition link_ok :: "('w \<Rightarrow> ChannelMessage list) \<Rightarrow> TracerNg \<Rightarrow> 'w TracerContext \<Rightarrow> bool" where
  "link_ok chan h c \<longleftrightarrow>
     registry_ok chan h c \<and> handle_ok h c \<and> hm_wf (tracepoints c) \<and>
     (atomics c (client_connected c) \<longleftrightarrow> connection c \<noteq> None)"

definition sys_ok :: "('w \<Rightarrow> ChannelMessage list) \<Rightarrow> 'w system \<Rightarrow> bool" where
  "sys_ok chan s \<longleftrightarrow>
     traffic_ok chan (sys_ctx s) \<and> link_ok chan (sys_handle s) (sys_ctx s)"

section \<open>Batches of events keep it\<close>

lemma traffic_thread:
  assumes "chan_law os chan"
  shows "frame_invariant os (\<lambda>w w'. chan w' = chan w) (traffic_ok chan)"
proof (intro frame_invariant.intro ctx_invariant.intro ctx_invariant_axioms.intro
    conn_invariant.intro conn_invariant_axioms.intro frame_invariant_axioms.intro
    env_frame_io chan_law_frame [OF assms], goal_cases)
  case (2 c c')
  then show ?case
    using env_frame.E_close [OF chan_law_frame [OF assms] 2(2)]
    by (simp add: traffic_ok_def buffer_ok_def close_effect(5))
next
  case (4 c e q)
  then show ?case by (auto simp: traffic_ok_def buffer_ok_def dest: vd.pop_front_Some)
qed (auto simp: traffic_ok_def buffer_ok_def frame_simps
    dest: chan_law_recv_Some [OF assms] chan_law_recv_None [OF assms])

text \<open>The cells of the tracepoints the thread knows are cells of the handle, and not the flag.\<close>

lemma link_ok_cell:
  assumes "link_ok chan h c" and "hm_get (tracepoints c) s = Some a"
  shows "a \<noteq> client_connected c"
  using assms by (auto simp: link_ok_def registry_ok_def handle_ok_def map_le_def ran_def dom_def)

lemma registry_ok_insert:
  assumes "registry_ok chan h c" and "chan (world c) = NewTracepoint t # chan w"
  shows "registry_ok chan h (insert_tracepoint (c\<lparr>world := w\<rparr>) t)"
proof -
  have get: "hm_get (tracepoints (insert_tracepoint (c\<lparr>world := w\<rparr>) t)) =
      (hm_get (tracepoints c))(tp_name t \<mapsto> tp_state t)"
    by (simp add: frame_simps hm.get_insert)
  show ?thesis
    using assms unfolding registry_ok_def get by (auto simp: map_le_def frame_simps)
qed

lemma registry_ok_skip:
  assumes "registry_ok chan h c" and "chan (world c) = m # chan w" and "\<forall>t. m \<noteq> NewTracepoint t"
    and "tracepoints c' = tracepoints c" and "world c' = w"
  shows "registry_ok chan h c'"
  using assms by (auto simp: registry_ok_def)

lemma link_thread:
  assumes "chan_law os chan"
  shows "frame_invariant os (\<lambda>w w'. chan w' = chan w) (link_ok chan h)"
proof (intro frame_invariant.intro ctx_invariant.intro ctx_invariant_axioms.intro
    conn_invariant.intro conn_invariant_axioms.intro frame_invariant_axioms.intro
    env_frame_io chan_law_frame [OF assms], goal_cases)
  case (1 c w)
  then show ?case by (simp add: link_ok_def registry_ok_def handle_ok_def)
next
  case (2 c c')
  then show ?case
    using env_frame.E_close [OF chan_law_frame [OF assms] 2(2)]
    by (simp add: link_ok_def registry_ok_def handle_ok_def close_effect [OF 2(2)])
next
  case (3 c s a b)
  with link_ok_cell [OF 3] show ?case
    by (simp add: link_ok_def registry_ok_def handle_ok_def)
next
  case (4 c e q)
  then show ?case by (simp add: link_ok_def registry_ok_def handle_ok_def)
next
  case (5 c w)
  with chan_law_recv_None [OF assms 5(2)] show ?case
    by (simp add: link_ok_def registry_ok_def handle_ok_def)
next
  case (6 c w e)
  with registry_ok_skip [OF _ chan_law_recv_Some [OF assms 6(2)]] show ?case
    by (simp add: link_ok_def handle_ok_def frame_simps)
next
  case (7 c w t)
  with registry_ok_insert [OF _ chan_law_recv_Some [OF assms 7(2)]] show ?case
    by (simp add: link_ok_def handle_ok_def frame_simps hm.wf_insert)
next
  case (8 c w)
  with registry_ok_skip [OF _ chan_law_recv_Some [OF assms 8(2)]] show ?case
    by (simp add: link_ok_def handle_ok_def)
next
  case (9 c s)
  then show ?case by (simp add: link_ok_def registry_ok_def handle_ok_def)
qed (simp_all add: link_ok_def registry_ok_def handle_ok_def)

lemma event_handler_sys_ok:
  assumes "chan_law os chan" and "sys_ok chan s" and "event_handler os k events (sys_ctx s) = Ret (st, c)"
  shows "sys_ok chan (s\<lparr>sys_ctx := c, sys_running := r\<rparr>)"
  using thread_invariant.event_handler_I [OF frame_invariant.is_thread_invariant [OF traffic_thread [OF assms(1)]] _ assms(3)]
    thread_invariant.event_handler_I [OF frame_invariant.is_thread_invariant [OF link_thread [OF assms(1)]] _ assms(3)] assms(2)
  by (simp add: sys_ok_def)

section \<open>Calls of the application keep it\<close>

lemma send_to_tracer_frame [simp]:
  "atomics (send_to_tracer os m c) = atomics c" "next_cell (send_to_tracer os m c) = next_cell c"
  "buffer (send_to_tracer os m (c :: 'w TracerContext)) = buffer c"
  "connection (send_to_tracer os m c) = connection c"
  "client_connected (send_to_tracer os m c) = client_connected c"
  "tracepoints (send_to_tracer os m c) = tracepoints c"
  by (simp_all add: send_to_tracer_def)

lemma new_cell_frame [simp]:
  "buffer (snd (new_cell b (c :: 'w TracerContext))) = buffer c"
  "connection (snd (new_cell b c)) = connection c"
  "client_connected (snd (new_cell b c)) = client_connected c"
  "tracepoints (snd (new_cell b c)) = tracepoints c"
  by (simp_all add: new_cell_def)

text \<open>A message that registers nothing.\<close>

lemma sys_ok_send:
  assumes "chan_law os chan" and "sys_ok chan s" and "message_ok m" and "\<forall>t. m \<noteq> NewTracepoint t"
  shows "sys_ok chan (s\<lparr>sys_ctx := send_to_tracer os m (sys_ctx s)\<rparr>)"
proof -
  have "chan (world (send_to_tracer os m (sys_ctx s))) = chan (world (sys_ctx s)) @ [m]"
    by (simp add: send_to_tracer_def chan_law_send [OF assms(1)])
  with assms(2-4) show ?thesis
    by (auto simp: sys_ok_def traffic_ok_def buffer_ok_def link_ok_def registry_ok_def handle_ok_def)
qed

lemma sys_ok_world:
  assumes "sys_ok chan s" and "chan w = chan (world (sys_ctx s))"
  shows "sys_ok chan (s\<lparr>sys_ctx := (sys_ctx s)\<lparr>world := w\<rparr>\<rparr>)"
  using assms
  by (simp add: sys_ok_def traffic_ok_def buffer_ok_def link_ok_def registry_ok_def handle_ok_def)

text \<open>Allocating a cell nobody refers to yet.\<close>

lemma sys_ok_new_cell:
  assumes "sys_ok chan s"
  shows "sys_ok chan (s\<lparr>sys_ctx := snd (new_cell False (sys_ctx s))\<rparr>)"
  using assms
  by (auto simp: sys_ok_def traffic_ok_def buffer_ok_def link_ok_def registry_ok_def handle_ok_def)

lemma handle_ok_register:
  assumes "handle_ok h c" and "hm_get (ng_tracepoints h) s = None" and "name_ok s"
  shows "handle_ok (h\<lparr>ng_tracepoints := hm_insert (ng_tracepoints h) s (next_cell c)\<rparr>)
    (send_to_tracer os m (snd (new_cell False c)))"
proof -
  let ?g = "hm_get (ng_tracepoints h)"
  have fresh: "next_cell c \<notin> ran ?g" "client_connected c \<noteq> next_cell c"
    using assms(1) by (auto simp: handle_ok_def)
  have ran: "ran (?g(s \<mapsto> next_cell c)) = insert (next_cell c) (ran ?g)"
    by (rule ran_map_upd [of ?g s, OF assms(2)])
  have "inj_on (?g(s \<mapsto> next_cell c)) (insert s (dom ?g))"
    using assms(1) fresh(1) by (auto simp: handle_ok_def inj_on_def ran_def dom_def)
  with assms fresh ran show ?thesis
    by (auto simp: handle_ok_def hm.get_insert hm.wf_insert)
qed

lemma registry_ok_register:
  assumes "registry_ok chan h c" and "hm_get (ng_tracepoints h) s = None"
    and "ng_tracepoints h' = hm_insert (ng_tracepoints h) s a"
    and "chan (world c') = chan (world c) @ [NewTracepoint \<lparr>tp_name = s, tp_state = a\<rparr>]"
    and "tracepoints c' = tracepoints c"
  shows "registry_ok chan h' c'"
proof -
  have pending: "tp_name t \<noteq> s" if "NewTracepoint t \<in> set (chan (world c))" for t
    using assms(1,2) that by (auto simp: registry_ok_def)
  have known: "hm_get (tracepoints c) s = None"
    using assms(1,2) by (auto simp: registry_ok_def map_le_def dom_def)
  show ?thesis
    using assms(1) pending known unfolding registry_ok_def assms(3-5) hm.get_insert
    by (auto simp: map_le_def)
qed

lemma register_sys_ok:
  assumes law: "chan_law os chan" and ok: "sys_ok chan s"
    and ret: "tracy_register os (Some (sys_handle s)) p (sys_ctx s) = Ret (r, Some t, c)"
  shows "sys_ok chan (s\<lparr>sys_handle := t, sys_ctx := c\<rparr>)"
  using ret
proof (cases rule: tracy_register_RetE)
  case Refused
  with sys_ok_new_cell [OF ok] show ?thesis by simp
next
  case (Registered x)
  have chan: "chan (world c) = chan (world (sys_ctx s)) @
      [NewTracepoint \<lparr>tp_name = x, tp_state = next_cell (sys_ctx s)\<rparr>]"
    unfolding Registered(4) by (simp add: send_to_tracer_def chan_law_send [OF law])
  have t: "ng_tracepoints t = hm_insert (ng_tracepoints (sys_handle s)) x (next_cell (sys_ctx s))"
    using Registered(3) by simp
  have frame: "tracepoints c = tracepoints (sys_ctx s)" "buffer c = buffer (sys_ctx s)"
    "connection c = connection (sys_ctx s)" "client_connected c = client_connected (sys_ctx s)"
    "atomics c = (atomics (sys_ctx s))(next_cell (sys_ctx s) := False)"
    unfolding Registered(4) by simp_all
  have parts: "registry_ok chan (sys_handle s) (sys_ctx s)" "handle_ok (sys_handle s) (sys_ctx s)"
    using ok by (simp_all add: sys_ok_def link_ok_def)
  have reg: "registry_ok chan t c"
    by (rule registry_ok_register [OF parts(1) Registered(2) t chan frame(1)])
  have handle: "handle_ok t c"
    using handle_ok_register [OF parts(2) Registered(2,1), of os] Registered(3,4) by simp
  have "client_connected (sys_ctx s) \<noteq> next_cell (sys_ctx s)"
    using parts(2) by (auto simp: handle_ok_def)
  with ok reg handle chan frame Registered(1) show ?thesis
    by (simp add: sys_ok_def link_ok_def traffic_ok_def buffer_ok_def)
qed

lemma submit_sys_ok:
  assumes law: "chan_law os chan" and ok: "sys_ok chan s"
    and ret: "tracy_submit os (Some (sys_handle s)) p d n (sys_ctx s) = Ret c"
  shows "sys_ok chan (s\<lparr>sys_ctx := c\<rparr>)"
  using ret
proof (cases rule: tracy_submit_RetE)
  case Ignored
  with ok show ?thesis by simp
next
  case (Sent e w now)
  have "chan w = chan (world (sys_ctx s))"
    by (rule io_frame.E_now [OF env_frame_io [OF chan_law_frame [OF law]] Sent(2)])
  from sys_ok_send [OF law sys_ok_world [OF ok this], of "Payload e"] Sent(1,5) show ?thesis
    by simp
qed

section \<open>Reachable states\<close>

lemma tracy_init_RetE:
  assumes "tracy_init os h host proc flush announce iface addr m = Ret (Some (t, sp), m1)"
  obtains "t = \<lparr>ng_client_connected = next_cell m, ng_tracepoints = hm_new h\<rparr>"
    "sp_client_connected sp = next_cell m" "m1 = snd (new_cell False m)"
  using assms by (auto simp: tracy_init_def new_cell_def outcome_simps Let_def split: if_splits)

lemma bind_first_chan:
  "io_frame os (\<lambda>w w'. chan w' = chan w) \<Longrightarrow> bind_first os w ports = (w', l) \<Longrightarrow> chan w' = chan w"
  by (induction os w ports rule: bind_first.induct)
    (auto split: prod.splits option.splits dest: io_frame.E_tcp_bind)

lemma chan_start_announcing:
  assumes "env_frame os (\<lambda>w w'. chan w' = chan w)"
  shows "chan (world (start_announcing os announce c)) = chan (world c)"
proof -
  obtain w sock where udp: "udp_init os (world c) (announce_iface (app_cfg c)) = (w, sock)"
    by (cases "udp_init os (world c) (announce_iface (app_cfg c))")
  then have "chan w = chan (world c)"
    by (auto simp: udp_init_def dest: io_frame.E_udp_bind [OF env_frame_io [OF assms]] split: option.splits)
  with env_frame.E_timers(3) [OF assms, of "c\<lparr>world := w, udp_sock := sock\<rparr>"] udp show ?thesis
    by (simp add: start_announcing_def)
qed

lemma register_source_effect:
  assumes "io_frame os (\<lambda>w w'. chan w' = chan w)" and "register_source os src token c = Ret c'"
  shows "chan (world c') = chan (world c)" and "connection c' = connection c" and "buffer c' = buffer c"
    and "tracepoints c' = tracepoints c" and "client_connected c' = client_connected c"
    and "atomics c' = atomics c" and "next_cell c' = next_cell c"
    and "queue_timeout c' = queue_timeout c" and "udp_timeout c' = udp_timeout c"
  using assms(2)
  by (auto simp: register_source_def dest: io_frame.E_register [OF assms(1)]
      split: prod.splits if_splits)

text \<open>The steps of a successful start.\<close>

lemma thread_start_RetE:
  assumes ret: "tracer_thread_start os cfg connected announce h m = Ret c"
  obtains w0 w1 l c0 c1 c2 c3 where "os_poll_new os (world m) = (w0, True)"
    "tcp_init os w0 = (w1, Some l)" "c0 = initial_context cfg connected h l (m\<lparr>world := w1\<rparr>)"
    "c1 = start_announcing os announce c0" "register_source os ChannelSource CHAN c1 = Ret c2"
    "register_source os TimerSource TIMER c2 = Ret c3"
    "register_source os (SocketSource (listener c3)) CON_NEW c3 = Ret c"
proof -
  obtain w0 w1 l where w: "os_poll_new os (world m) = (w0, True)" "tcp_init os w0 = (w1, Some l)"
    using ret by (auto simp: tracer_thread_start_def outcome_simps split: prod.splits if_splits)
  define c0 where "c0 = initial_context cfg connected h l (m\<lparr>world := w1\<rparr>)"
  define c1 where "c1 = start_announcing os announce c0"
  obtain c2 c3 where "register_source os ChannelSource CHAN c1 = Ret c2"
    "register_source os TimerSource TIMER c2 = Ret c3"
    "register_source os (SocketSource (listener c3)) CON_NEW c3 = Ret c"
    using ret w
    by (auto simp: tracer_thread_start_def c0_def [symmetric] c1_def [symmetric] outcome_simps Let_def)
  with w c0_def c1_def show thesis by (rule that)
qed

text \<open>Starting the thread: nothing is connected, buffered or registered.\<close>

lemma thread_start_effect:
  assumes law: "env_frame os (\<lambda>w w'. chan w' = chan w)"
    and ret: "tracer_thread_start os cfg connected announce h m = Ret c"
  shows "chan (world c) = chan (world m)" and "connection c = None" and "contents (buffer c) = []"
    and "tracepoints c = hm_new h" and "client_connected c = connected"
    and "atomics c = atomics m" and "next_cell c = next_cell m"
proof -
  obtain w0 w1 l c0 c1 c2 c3 where w0: "os_poll_new os (world m) = (w0, True)"
    and w1: "tcp_init os w0 = (w1, Some l)"
    and c0_def: "c0 = initial_context cfg connected h l (m\<lparr>world := w1\<rparr>)"
    and c1_def: "c1 = start_announcing os announce c0"
    and c2: "register_source os ChannelSource CHAN c1 = Ret c2"
    and c3: "register_source os TimerSource TIMER c2 = Ret c3"
    and c: "register_source os (SocketSource (listener c3)) CON_NEW c3 = Ret c"
    by (rule thread_start_RetE [OF ret])
  note regs = register_source_effect [OF env_frame_io [OF law]]
  have "chan w1 = chan (world m)"
    using bind_first_chan [OF env_frame_io [OF law] w1 [unfolded tcp_init_def]] io_frame.E_poll_new [OF env_frame_io [OF law] w0] by simp
  moreover have "chan (world c1) = chan (world c0)"
    unfolding c1_def by (rule chan_start_announcing [OF law])
  ultimately show "chan (world c) = chan (world m)"
    using regs [OF c2] regs [OF c3] regs [OF c] by (simp add: c0_def initial_context_def)
  have "connection c1 = None" "contents (buffer c1) = []" "tracepoints c1 = hm_new h"
    "client_connected c1 = connected" "atomics c1 = atomics m" "next_cell c1 = next_cell m"
    by (auto simp: c1_def start_announcing_def c0_def initial_context_def frame_simps split: prod.split)
  then show "connection c = None" "contents (buffer c) = []" "tracepoints c = hm_new h"
    "client_connected c = connected" "atomics c = atomics m" "next_cell c = next_cell m"
    using regs(2-7) [OF c2] regs(2-7) [OF c3] regs(2-7) [OF c] by simp_all
qed

lemma start_sys_ok:
  assumes law: "chan_law os chan" and empty: "chan (world m) = []"
    and init: "tracy_init os h host proc flush announce iface addr m = Ret (Some (t, sp), m1)"
    and start: "tracer_thread_start os (sp_init_data sp) (sp_client_connected sp) (sp_announce sp) h' m1 = Ret c"
  shows "sys_ok chan \<lparr>sys_handle = t, sys_live = True, sys_running = True, sys_ctx = c\<rparr>"
  using init
proof (cases rule: tracy_init_RetE)
  case 1
  note c = thread_start_effect [OF chan_law_frame [OF law] start]
  have no: "hm_get (hm_new x) = Map.empty" for x :: "rstring \<Rightarrow> nat" by (simp add: hm.get_new fun_eq_iff)
  show ?thesis
    using 1 c empty
    by (simp add: sys_ok_def traffic_ok_def buffer_ok_def link_ok_def registry_ok_def handle_ok_def
        no hm.wf_new)
qed

lemma reachable_sys_ok:
  assumes "chan_law os chan" and "reachable os k chan s"
  shows "sys_ok chan s"
  using assms(2)
proof (induction rule: reachable.induct)
  case (Start h host proc flush announce iface addr m t sp m1 h' c)
  then show ?case by (intro start_sys_ok [OF assms(1)])
next
  case (Step s s')
  from Step.hyps(2) show ?case
  proof (cases rule: tracer_step.cases)
    case (Register t c p r)
    with register_sys_ok [OF assms(1) Step.IH] show ?thesis by simp
  next
    case (Submit c p d n)
    with submit_sys_ok [OF assms(1) Step.IH] show ?thesis by simp
  next
    case (Finit c)
    with sys_ok_send [OF assms(1) Step.IH, of TerminateMsg] show ?thesis
      by (simp add: tracy_finit_def sys_ok_def)
  next
    case (Events c st events)
    with event_handler_sys_ok [OF assms(1) Step.IH] show ?thesis by simp
  next
    case (Outside w)
    with sys_ok_world [OF Step.IH] show ?thesis by simp
  qed
qed

section \<open>A concrete run\<close>

text \<open>
  A run in the scripted environment: the tracer is initialised without announcements, a
  tracepoint is registered, and a client connects.
\<close>

definition demo_machine :: "script machine" where
  "demo_machine = \<lparr>world = idle_script, atomics = (\<lambda>_. False), next_cell = 0\<rparr>"

definition demo_start :: "script TracerContext" where
  "demo_start = initial_context
     \<lparr>hostname = bytes_of ''h'', process_name = bytes_of ''p'', send_interval = 1000,
      announce_interval = 0, announce_addr = None, announce_iface = None\<rparr>
     0 (\<lambda>_. 0) 3 (snd (new_cell False demo_machine))"

definition demo_handle :: TracerNg where
  "demo_handle = \<lparr>ng_client_connected = 0, ng_tracepoints = hm_insert (hm_new (\<lambda>_. 0)) demo_name 1\<rparr>"

definition demo_registered :: "script TracerContext" where
  "demo_registered = send_to_tracer open_os (NewTracepoint \<lparr>tp_name = demo_name, tp_state = 1\<rparr>)
     (snd (new_cell False demo_start))"

definition demo_connected :: "script TracerContext" where
  "demo_connected = demo_registered\<lparr>
     world := idle_script, connection := Some 7, tracepoints := hm_insert (hm_new (\<lambda>_. 0)) demo_name 1,
     atomics := (\<lambda>a. a = 0)\<rparr>"

lemma tcp_init_open: "tcp_init open_os w = (w, Some 3)"
proof -
  have "listen_ports \<noteq> []"
    unfolding listen_ports_def map_is_Nil_conv upt_eq_Nil_conv by simp
  then obtain p ps where ports: "listen_ports = p # ps" by (cases listen_ports) auto
  show ?thesis unfolding tcp_init_def ports by simp
qed

lemma demo_started:
  "reachable open_os k sc_chan
     \<lparr>sys_handle = \<lparr>ng_client_connected = 0, ng_tracepoints = hm_new (\<lambda>_. 0)\<rparr>,
      sys_live = True, sys_running = True, sys_ctx = demo_start\<rparr>"
proof (rule reachable.Start [where host = "c_string (bytes_of ''h'') []"
      and proc = "c_string (bytes_of ''p'') []" and flush = 1000 and announce = 0 and iface = None
      and addr = None and m = demo_machine and h' = "\<lambda>_. 0"])
  show "tracy_init open_os (\<lambda>_. 0) (c_string (bytes_of ''h'') []) (c_string (bytes_of ''p'') [])
      1000 0 None None demo_machine =
    Ret (Some (\<lparr>ng_client_connected = 0, ng_tracepoints = hm_new (\<lambda>_. 0)\<rparr>,
      \<lparr>sp_init_data = app_cfg demo_start, sp_client_connected = 0, sp_announce = False\<rparr>),
      snd (new_cell False demo_machine))"
    by (simp add: tracy_init_def rawpt_to_addr_def rawpt_to_str_def cstr_from_ptr_def bytes_of_def
        from_utf8_lossy_ascii new_cell_def demo_machine_def demo_start_def initial_context_def Let_def)
  show "tracer_thread_start open_os
      (sp_init_data \<lparr>sp_init_data = app_cfg demo_start, sp_client_connected = 0, sp_announce = False\<rparr>)
      (sp_client_connected \<lparr>sp_init_data = app_cfg demo_start, sp_client_connected = 0, sp_announce = False\<rparr>)
      (sp_announce \<lparr>sp_init_data = app_cfg demo_start, sp_client_connected = 0, sp_announce = False\<rparr>)
      (\<lambda>_. 0) (snd (new_cell False demo_machine)) = Ret demo_start"
    by (simp add: tracer_thread_start_def tcp_init_open start_announcing_def register_source_def
        demo_start_def initial_context_def Let_def)
qed (simp add: demo_machine_def)

lemma demo_was_registered:
  "reachable open_os k sc_chan
     \<lparr>sys_handle = demo_handle, sys_live = True, sys_running = True, sys_ctx = demo_registered\<rparr>"
proof -
  let ?h = "\<lparr>ng_client_connected = 0, ng_tracepoints = hm_new (\<lambda>_. 0)\<rparr>"
  have ok: "0 \<notin> set demo_name" "is_ascii demo_name" "normal_name demo_name = demo_name"
    using demo_name_ok by (simp_all add: demo_name_eq name_ok_def normal_name_def)
  have fresh: "next_cell demo_start = 1"
    by (simp add: demo_start_def initial_context_def demo_machine_def)
  have "tracy_register open_os (Some ?h) (c_string demo_name []) demo_start =
      Ret (0, Some demo_handle, demo_registered)"
    unfolding tracy_register_eq [OF ok(1)]
    by (simp add: ok fresh hm.get_new demo_handle_def demo_registered_def new_cell_def Let_def)
  with reachable.Step [OF demo_started tracer_step.Register] show ?thesis by simp
qed

text \<open>One batch: the listener is ready, and so is the channel.\<close>

lemma demo_was_connected:
  "reachable open_os 3 sc_chan
     \<lparr>sys_handle = demo_handle, sys_live = True, sys_running = True, sys_ctx = demo_connected\<rparr>"
proof -
  let ?w = "(world demo_registered)\<lparr>sc_accepts := [7]\<rparr>"
  let ?s = "\<lparr>sys_handle = demo_handle, sys_live = True, sys_running = True,
      sys_ctx = demo_registered\<lparr>world := ?w\<rparr>\<rparr>"
  have s: "reachable open_os 3 sc_chan ?s"
    using reachable.Step [OF demo_was_registered tracer_step.Outside [of sc_chan ?w]] by simp
  have "event_handler open_os 3 [CON_NEW, CHAN] (sys_ctx ?s) = Ret (DataProcessed, demo_connected)"
    by (simp add: event_handler_def establish_connection_def channel_handler_def demo_connected_def
        demo_registered_def demo_start_def initial_context_def demo_machine_def new_cell_def
        send_to_tracer_def insert_tracepoint_def check_stop_udp_timer_def store_def Let_def
        idle_script_def numeral_3_eq_3 fun_eq_iff)
  from reachable.Step [OF s tracer_step.Events [OF _ this]] show ?thesis by simp
qed

definition demo_enabled :: "script TracerContext" where
  "demo_enabled = store 1 True demo_connected"

definition demo_payload :: BufferElement where
  "demo_payload = \<lparr>el_tracepoint = demo_name, el_timestamp = sc_clock idle_script, el_data = [1]\<rparr>"

definition demo_submitted :: "script TracerContext" where
  "demo_submitted = demo_enabled\<lparr>world := idle_script\<lparr>sc_chan := [Payload demo_payload]\<rparr>\<rparr>"

lemma demo_payload_ok: "element_ok demo_payload"
  using demo_name_ok by (simp add: demo_payload_def element_ok_def)

lemma demo_connected_simps [simp]:
  "world demo_connected = idle_script" "connection demo_connected = Some 7"
  "atomics demo_connected = (\<lambda>a. a = 0)" "client_connected demo_connected = 0"
  "hm_get (tracepoints demo_connected) s = (if s = demo_name then Some 1 else None)"
  "queue_timeout demo_connected = None" "buffer demo_connected = vd_empty"
  "buffer_occupancy demo_connected = 0"
  by (simp_all add: demo_connected_def demo_registered_def demo_start_def initial_context_def
      hm.get_insert hm.get_new new_cell_def send_to_tracer_def)

text \<open>The client enables the tracepoint.\<close>

lemma demo_was_enabled:
  "reachable open_os 3 sc_chan
     \<lparr>sys_handle = demo_handle, sys_live = True, sys_running = True, sys_ctx = demo_enabled\<rparr>"
proof -
  let ?q = "(True, [demo_name])"
  let ?w = "idle_script\<lparr>sc_reads := [Inr (concat (map toggle_frame_of [?q]))]\<rparr>"
  let ?s = "\<lparr>sys_handle = demo_handle, sys_live = True, sys_running = True,
      sys_ctx = demo_connected\<lparr>world := ?w\<rparr>\<rparr>"
  have s: "reachable open_os 3 sc_chan ?s"
    using reachable.Step [OF demo_was_connected tracer_step.Outside [of sc_chan ?w]] by simp
  have "receive open_os 3 (demo_connected\<lparr>world := ?w\<rparr>) =
      Ret ((run_requests [?q] (demo_connected\<lparr>world := ?w\<rparr>))\<lparr>world := os_drop open_os idle_script 7\<rparr>)"
    by (rule receive_requests [where ?w0.0 = ?w and ?w1.0 = idle_script and s = 7])
      (simp_all add: request_ok_def wire_name_def demo_name_eq is_ascii_valid toggle_frame_of_def
        length_enc_frame del: enc_frame.simps)
  also have "(run_requests [?q] (demo_connected\<lparr>world := ?w\<rparr>))\<lparr>world := os_drop open_os idle_script 7\<rparr> =
      demo_enabled"
    using store_world [where a = 1 and b = True and c = demo_connected and w = ?w] by (simp add: toggle_def demo_enabled_def)
  finally have "event_handler open_os 3 [CON_DATA] (sys_ctx ?s) = Ret (Normal, demo_enabled)"
    by (simp add: event_handler_def)
  from reachable.Step [OF s tracer_step.Events [OF _ this]] show ?thesis by simp
qed

text \<open>The application submits one byte.\<close>

lemma demo_was_submitted:
  "reachable open_os 3 sc_chan
     \<lparr>sys_handle = demo_handle, sys_live = True, sys_running = True, sys_ctx = demo_submitted\<rparr>"
proof -
  have ok: "0 \<notin> set demo_name" "is_ascii demo_name" "normal_name demo_name = demo_name"
    using demo_name_ok by (simp_all add: demo_name_eq name_ok_def normal_name_def)
  have "tracy_submit open_os (Some demo_handle) (c_string demo_name []) (Some [1]) 1 demo_enabled =
      Ret demo_submitted"
    by (simp add: tracy_submit_def ok fix_lossy_eq tracepoint_enabled_def demo_handle_def hm.get_insert
        send_to_tracer_def demo_submitted_def demo_enabled_def demo_payload_def)
  with reachable.Step [OF demo_was_enabled tracer_step.Submit] show ?thesis by simp
qed

text \<open>The thread takes it from the channel; the client is still connected.\<close>

definition demo_buffered :: "script TracerContext" where
  "demo_buffered = check_start_queue_timer open_os (ctx_append (demo_enabled\<lparr>world := idle_script\<rparr>) demo_payload)"

lemma demo_was_buffered:
  "reachable open_os 3 sc_chan
     \<lparr>sys_handle = demo_handle, sys_live = True, sys_running = True, sys_ctx = demo_buffered\<rparr>"
proof -
  have w: "world demo_buffered = idle_script\<lparr>sc_armed := [(1, send_interval (app_cfg demo_enabled), 42)]\<rparr>"
    by (simp add: demo_buffered_def check_start_queue_timer_def ctx_append_def demo_enabled_def
        fresh_handle_def)
  have "channel_data_handler open_os 3 (demo_enabled\<lparr>world := idle_script\<rparr>) demo_payload = Ret demo_buffered"
    by (simp add: channel_data_handler_def Let_def demo_buffered_def ctx_append_def el_len_def
        demo_enabled_def demo_payload_def demo_name_eq)
  with w have "event_handler open_os 3 [CHAN] demo_submitted = Ret (DataProcessed, demo_buffered)"
    by (simp add: event_handler_def channel_handler_def demo_submitted_def numeral_3_eq_3)
  from reachable.Step [OF demo_was_submitted tracer_step.Events] this show ?thesis by fastforce
qed

lemma demo_buffered_simps [simp]:
  "connection demo_buffered = Some 7" "contents (buffer demo_buffered) = [demo_payload]"
  "sc_sent (world demo_buffered) = []"
  by (simp_all add: demo_buffered_def frame_simps demo_enabled_def)
    (simp add: check_start_queue_timer_def ctx_append_def)

end
