(* ===== verification/Timer_Discipline.thy ===== *)
theory Timer_Discipline
  imports Tracer_System
begin

text \<open>
  The two timeouts of the tracer thread. The contract of the timer of mio-extras, and the
  discipline with which \<^verbatim>\<open>lib.rs\<close> uses it: what is armed is exactly what the context remembers, so
  no timeout is leaked, armed twice or cancelled wrongly, and none for announcements is pending
  while a client is connected.
\<close>

section \<open>The timer\<close>

text \<open>
  \<open>armed\<close> shows the pending timeouts, as pairs of handle and identification. Arming returns a
  handle that is not in use, cancelling removes the timeout of a handle, and polling yields the
  identification of a pending timeout and removes it. Nothing else touches them.
\<close>

definition timer_law :: "'w os \<Rightarrow> ('w \<Rightarrow> (timeout \<times> nat) set) \<Rightarrow> bool" where
  "timer_law os armed \<longleftrightarrow>
     io_frame os (\<lambda>w w'. armed w' = armed w) \<and>
     (\<forall>w d i w' h. os_set_timeout os w d i = (w', h) \<longrightarrow>
        h \<notin> fst ` armed w \<and> armed w' = insert (h, i) (armed w)) \<and>
     (\<forall>w h. armed (os_cancel_timeout os w h) = {p \<in> armed w. fst p \<noteq> h}) \<and>
     (\<forall>w w' i. os_timer_poll os w = (w', Some i) \<longrightarrow>
        (\<exists>h. (h, i) \<in> armed w \<and> armed w' = armed w - {(h, i)})) \<and>
     (\<forall>w w'. os_timer_poll os w = (w', None) \<longrightarrow> armed w' = armed w) \<and>
     (\<forall>w w' m. os_try_recv os w = (w', m) \<longrightarrow> armed w' = armed w)"

lemma timer_law_io: "timer_law os armed \<Longrightarrow> io_frame os (\<lambda>w w'. armed w' = armed w)"
  by (simp add: timer_law_def)

lemma timer_law_set:
  assumes "timer_law os armed" and "os_set_timeout os w d i = (w', h)"
  shows "h \<notin> fst ` armed w" and "armed w' = insert (h, i) (armed w)"
proof -
  have "\<forall>w d i w' h. os_set_timeout os w d i = (w', h) \<longrightarrow>
      h \<notin> fst ` armed w \<and> armed w' = insert (h, i) (armed w)"
    using assms(1) unfolding timer_law_def by (elim conjE)
  with assms(2) show "h \<notin> fst ` armed w" "armed w' = insert (h, i) (armed w)" by metis+
qed

lemma timer_law_cancel:
  "timer_law os armed \<Longrightarrow> armed (os_cancel_timeout os w h) = {p \<in> armed w. fst p \<noteq> h}"
  by (simp add: timer_law_def)

lemma timer_law_poll:
  assumes "timer_law os armed" and "os_timer_poll os w = (w', Some i)"
  obtains h where "(h, i) \<in> armed w" "armed w' = armed w - {(h, i)}"
proof -
  have "\<forall>w w' i. os_timer_poll os w = (w', Some i) \<longrightarrow>
      (\<exists>h. (h, i) \<in> armed w \<and> armed w' = armed w - {(h, i)})"
    using assms(1) unfolding timer_law_def by (elim conjE)
  with assms(2) that show thesis by metis
qed

lemma timer_law_poll_None:
  "timer_law os armed \<Longrightarrow> os_timer_poll os w = (w', None) \<Longrightarrow> armed w' = armed w"
  by (simp add: timer_law_def)

lemma timer_law_recv: "timer_law os armed \<Longrightarrow> os_try_recv os w = (w', m) \<Longrightarrow> armed w' = armed w"
  by (simp add: timer_law_def)

section \<open>The invariant\<close>

text \<open>The timeouts the context remembers.\<close>

definition remembered :: "'w TracerContext \<Rightarrow> (timeout \<times> nat) set" where
  "remembered c =
     (case queue_timeout c of Some h \<Rightarrow> {(h, QUEUE_TIMEOUT_IDENT)} | None \<Rightarrow> {}) \<union>
     (case udp_timeout c of Some h \<Rightarrow> {(h, UDP_TIMEOUT_IDENT)} | None \<Rightarrow> {})"

definition timers_ok :: "('w \<Rightarrow> (timeout \<times> nat) set) \<Rightarrow> 'w TracerContext \<Rightarrow> bool" where
  "timers_ok armed c \<longleftrightarrow>
     armed (world c) = remembered c \<and>
     (\<forall>h. queue_timeout c = Some h \<longrightarrow> udp_timeout c \<noteq> Some h) \<and>
     (connection c \<noteq> None \<longrightarrow> udp_timeout c = None)"

lemma timers_ok_cong:
  "timers_ok armed c \<Longrightarrow> armed (world c') = armed (world c) \<Longrightarrow> queue_timeout c' = queue_timeout c \<Longrightarrow>
   udp_timeout c' = udp_timeout c \<Longrightarrow> connection c' = connection c \<or> connection c' = None \<Longrightarrow>
   timers_ok armed c'"
  by (auto simp: timers_ok_def remembered_def)

section \<open>The timer methods keep it\<close>

lemma start_queue_timers_ok:
  assumes law: "timer_law os armed" and ok: "timers_ok armed c"
  shows "timers_ok armed (check_start_queue_timer os c)"
proof (cases "queue_timeout c")
  case None
  obtain w h where set: "os_set_timeout os (world c) (send_interval (app_cfg c)) QUEUE_TIMEOUT_IDENT = (w, h)"
    by (cases "os_set_timeout os (world c) (send_interval (app_cfg c)) QUEUE_TIMEOUT_IDENT")
  with None timer_law_set [OF law set] ok show ?thesis
    by (auto simp: check_start_queue_timer_def timers_ok_def remembered_def split: option.splits)
qed (use ok in \<open>simp add: check_start_queue_timer_def\<close>)

lemma stop_queue_timers_ok:
  assumes law: "timer_law os armed" and ok: "timers_ok armed c"
  shows "timers_ok armed (check_stop_queue_timer os c)"
proof (cases "queue_timeout c")
  case None
  with ok show ?thesis by (simp add: check_stop_queue_timer_def timers_ok_def remembered_def)
next
  case (Some h)
  with ok timer_law_cancel [OF law, of "world c" h] show ?thesis
    by (auto simp: check_stop_queue_timer_def timers_ok_def remembered_def split: option.splits)
qed

lemma start_udp_timers_ok:
  assumes law: "timer_law os armed" and ok: "timers_ok armed c" and none: "connection c = None"
  shows "timers_ok armed (check_start_udp_timer os c)"
proof (cases "udp_timeout c")
  case None
  obtain w h where set: "os_set_timeout os (world c) (announce_interval (app_cfg c)) UDP_TIMEOUT_IDENT = (w, h)"
    by (cases "os_set_timeout os (world c) (announce_interval (app_cfg c)) UDP_TIMEOUT_IDENT")
  with None timer_law_set [OF law set] ok none show ?thesis
    by (auto simp: check_start_udp_timer_def timers_ok_def remembered_def split: option.splits)
qed (use ok in \<open>simp add: check_start_udp_timer_def\<close>)

lemma stop_udp_timers_ok:
  assumes law: "timer_law os armed" and ok: "timers_ok armed c"
  shows "timers_ok armed (check_stop_udp_timer os c)"
proof (cases "udp_timeout c")
  case None
  with ok show ?thesis by (simp add: check_stop_udp_timer_def timers_ok_def remembered_def)
next
  case (Some h)
  with ok timer_law_cancel [OF law, of "world c" h] show ?thesis
    by (auto simp: check_stop_udp_timer_def timers_ok_def remembered_def split: option.splits)
qed

text \<open>An accepted connection: stopping the announcements is what makes the invariant hold again.\<close>

lemma stop_udp_connected:
  assumes law: "timer_law os armed" and ok: "timers_ok armed c"
  shows "timers_ok armed (check_stop_udp_timer os (store a b (c\<lparr>connection := Some s\<rparr>)))"
proof -
  let ?c = "check_stop_udp_timer os c" and ?d = "check_stop_udp_timer os (store a b (c\<lparr>connection := Some s\<rparr>))"
  have "timers_ok armed ?c" by (rule stop_udp_timers_ok [OF law ok])
  moreover have "world ?d = world ?c" "queue_timeout ?d = queue_timeout ?c" "udp_timeout ?d = None"
    "udp_timeout ?c = None"
    by (simp_all add: check_stop_udp_timer_def split: option.split)
  ultimately show ?thesis by (simp add: timers_ok_def remembered_def)
qed

text \<open>An expired timeout: the context forgets it.\<close>

lemma expired_timers_ok:
  assumes law: "timer_law os armed" and ok: "timers_ok armed c"
    and poll: "os_timer_poll os (world c) = (w, Some i)"
  shows "i = QUEUE_TIMEOUT_IDENT \<and> timers_ok armed (c\<lparr>world := w, queue_timeout := None\<rparr>) \<or>
    i = UDP_TIMEOUT_IDENT \<and> connection c = None \<and> timers_ok armed (c\<lparr>world := w, udp_timeout := None\<rparr>)"
  using law poll
proof (cases rule: timer_law_poll)
  case (1 h)
  with ok show ?thesis by (auto simp: timers_ok_def remembered_def split: option.splits)
qed

lemma close_timers_ok:
  assumes law: "timer_law os armed" and ok: "timers_ok armed c"
    and ret: "close_and_clean_connection os c = Ret c'"
  shows "timers_ok armed c'"
proof -
  note E = io_frame.E_try_clone [OF timer_law_io [OF law]] io_frame.E_drop [OF timer_law_io [OF law]]
    io_frame.E_deregister [OF timer_law_io [OF law]]
  obtain s where s: "connection c = Some s" using close_effect(14) [OF ret] by auto
  obtain w t where t: "os_try_clone os (world c) s = (w, t)" by (cases "os_try_clone os (world c) s")
  define c2 where "c2 = (case t of
      Some tmp \<Rightarrow> (store (client_connected c) False c)\<lparr>world := os_drop os (os_deregister os w tmp) tmp\<rparr>
    | None \<Rightarrow> (store (client_connected c) False c)\<lparr>world := w\<rparr>)"
  define c3 where "c3 = c2\<lparr>world := os_drop os (world c2) s, connection := None\<rparr>"
  let ?c4 = "check_stop_queue_timer os c3"
  let ?c5 = "disable_all (hm_values (tracepoints ?c4)) ?c4"
  have c': "c' = check_start_udp_timer os ?c5"
    using ret s t by (simp add: close_and_clean_connection_def Let_def c2_def c3_def split: option.splits)
  have "timers_ok armed c2"
    by (rule timers_ok_cong [OF ok]) (auto simp: c2_def E E(1) [OF t] split: option.split)
  then have "timers_ok armed c3" by (rule timers_ok_cong) (simp_all add: c3_def E)
  then have "timers_ok armed ?c4" by (rule stop_queue_timers_ok [OF law])
  then have "timers_ok armed ?c5" by (rule timers_ok_cong) (simp_all add: disable_all_eq)
  moreover have "connection ?c5 = None" by (simp add: disable_all_eq frame_simps c3_def)
  ultimately show ?thesis unfolding c' by (rule start_udp_timers_ok [OF law])
qed

lemma announce_timers_ok:
  assumes law: "timer_law os armed" and ok: "timers_ok armed c" and ret: "announce_tracer os c = Ret c'"
  shows "timers_ok armed c'" and "connection c' = connection c"
proof -
  from ret have "timers_ok armed c' \<and> connection c' = connection c"
  proof (cases rule: announce_tracer_RetE)
    case (Silent json)
    then show ?thesis using ok by (auto intro: timers_ok_cong)
  next
    case (Sent s json addr)
    then show ?thesis
      using ok io_frame.E_send_to [OF timer_law_io [OF law]] by (auto intro: timers_ok_cong)
  qed
  then show "timers_ok armed c'" "connection c' = connection c" by simp_all
qed

lemma timers_thread:
  assumes law: "timer_law os armed"
  shows "thread_invariant os (\<lambda>w w'. armed w' = armed w) (timers_ok armed)"
proof (intro thread_invariant.intro ctx_invariant.intro ctx_invariant_axioms.intro
    conn_invariant.intro conn_invariant_axioms.intro thread_invariant_axioms.intro
    timer_law_io [OF law], goal_cases)
  case (2 c c')
  then show ?case by (rule close_timers_ok [OF law])
next
  case (9 c)
  then show ?case by (rule start_queue_timers_ok [OF law])
next
  case (10 c)
  then show ?case by (rule stop_queue_timers_ok [OF law])
next
  case (11 c w)
  from expired_timers_ok [OF law 11] show ?case by simp
next
  case (12 c w c')
  from expired_timers_ok [OF law 12(1,2)] have ok: "timers_ok armed (c\<lparr>world := w, udp_timeout := None\<rparr>)"
    and none: "connection c = None" by simp_all
  from announce_timers_ok [OF law ok 12(3)] none show ?case by (intro start_udp_timers_ok [OF law]) simp_all
next
  case (13 c w i)
  then show ?case
  proof (cases i)
    case None
    with 13 have "armed w = armed (world c)" by (simp add: timer_law_poll_None [OF law])
    then show ?thesis by (intro timers_ok_cong [OF 13(1)]) simp_all
  next
    case (Some j)
    with 13 expired_timers_ok [OF law 13(1)] show ?thesis by blast
  qed
next
  case (14 c s)
  from stop_udp_connected [OF law 14(1)] show ?case .
next
  case (15 c)
  from stop_udp_timers_ok [OF law 15(1)] show ?case .
qed (erule timers_ok_cong; simp add: frame_simps timer_law_recv [OF law])+

section \<open>Runs of the thread\<close>

text \<open>
  The thread starts with a fresh timer and handles batches of events. In between, the rest of
  the program may do anything to the shared cells and to the world, but for the timer, which
  only the thread can reach.
\<close>

inductive thread_run ::
  "'w os \<Rightarrow> nat \<Rightarrow> ('w \<Rightarrow> (timeout \<times> nat) set) \<Rightarrow> 'w TracerContext \<Rightarrow> bool" for os k armed where
  Started: "thread_run os k armed c"
    if "tracer_thread_start os cfg connected announce h m = Ret c" and "armed (world m) = {}"
| Batch: "thread_run os k armed c'"
    if "thread_run os k armed c" and "event_handler os k events c = Ret (st, c')"
| Elsewhere: "thread_run os k armed (c\<lparr>world := w, atomics := f, next_cell := n\<rparr>)"
    if "thread_run os k armed c" and "armed w = armed (world c)"

lemma start_timers_ok:
  assumes law: "timer_law os armed" and ret: "tracer_thread_start os cfg connected announce h m = Ret c"
    and empty: "armed (world m) = {}"
  shows "timers_ok armed c"
  using ret
proof (cases rule: thread_start_RetE)
  case (1 w0 w1 l c0 c1 c2 c3)
  note io = timer_law_io [OF law]
  note regs = register_source_effect [OF io]
  have "armed w1 = {}"
    using bind_first_chan [OF io 1(2) [unfolded tcp_init_def]] io_frame.E_poll_new [OF io 1(1)] empty by simp
  then have c0: "timers_ok armed c0" "connection c0 = None"
    by (simp_all add: 1(3) initial_context_def timers_ok_def remembered_def)
  obtain w sock where udp: "udp_init os (world c0) (announce_iface (app_cfg c0)) = (w, sock)"
    by (cases "udp_init os (world c0) (announce_iface (app_cfg c0))")
  then have "armed w = armed (world c0)"
    by (auto simp: udp_init_def dest: io_frame.E_udp_bind [OF io] split: option.splits)
  then have "timers_ok armed (c0\<lparr>world := w, udp_sock := sock\<rparr>)"
    by (intro timers_ok_cong [OF c0(1)]) simp_all
  then have c1: "timers_ok armed c1"
    using c0 udp by (auto simp: 1(4) start_announcing_def intro: start_udp_timers_ok [OF law])
  have step: "timers_ok armed d'" if "timers_ok armed d" "register_source os src tok d = Ret d'" for d d' src tok
    by (rule timers_ok_cong [OF that(1)]) (simp_all add: regs [OF that(2)])
  from step [OF step [OF step [OF c1 1(5)] 1(6)] 1(7)] show ?thesis .
qed

lemma thread_run_timers_ok:
  assumes law: "timer_law os armed" and "thread_run os k armed c"
  shows "timers_ok armed c"
  using assms(2)
proof (induction rule: thread_run.induct)
  case (Started cfg connected announce h m c)
  then show ?case by (rule start_timers_ok [OF law])
next
  case (Batch c events st c')
  from thread_invariant.event_handler_I [OF timers_thread [OF law] Batch.IH Batch.hyps(2)] show ?case .
next
  case (Elsewhere c w f n)
  from timers_ok_cong [OF Elsewhere.IH] Elsewhere.hyps(2) show ?case by simp
qed

section \<open>The scripted timer\<close>

definition script_armed :: "script \<Rightarrow> (timeout \<times> nat) set" where
  "script_armed w = (\<lambda>(h, d, i). (h, i)) ` set (sc_armed w)"

lemma script_armed_cong: "sc_armed w' = sc_armed w \<Longrightarrow> script_armed w' = script_armed w"
  by (simp add: script_armed_def)

lemma fresh_handle_fresh: "fresh_handle w \<notin> fst ` script_armed w"
proof
  assume "fresh_handle w \<in> fst ` script_armed w"
  then have "fresh_handle w \<in> set (map fst (sc_armed w))" by (force simp: script_armed_def)
  from member_le_sum_list [OF this] show False by (simp add: fresh_handle_def)
qed

lemma script_read_armed: "script_read w s n = (w', res) \<Longrightarrow> sc_armed w' = sc_armed w"
  by (auto simp: script_read_def split: list.splits sum.splits if_splits)

lemma script_timer_poll_armed:
  assumes "script_timer_poll w = (w', r)"
  shows "r = Some i \<Longrightarrow> \<exists>h. (h, i) \<in> script_armed w \<and> script_armed w' = script_armed w - {(h, i)}"
    and "r = None \<Longrightarrow> w' = w"
proof -
  let ?due = "filter (\<lambda>(h, d, i). d \<le> sc_elapsed w) (sc_armed w)"
  show "\<exists>h. (h, i) \<in> script_armed w \<and> script_armed w' = script_armed w - {(h, i)}" if "r = Some i"
  proof (cases ?due)
    case (Cons p ps)
    obtain h d j where p: "p = (h, d, j)" by (cases p)
    have "p \<in> set ?due" unfolding Cons by simp
    then have "(h, d, j) \<in> set (sc_armed w)" by (simp add: p)
    moreover have "j = i" "w' = w\<lparr>sc_armed := filter (\<lambda>(h', d', i'). (h', i') \<noteq> (h, j)) (sc_armed w)\<rparr>"
      using assms that Cons p by (auto simp: script_timer_poll_def)
    ultimately show ?thesis by (intro exI [of _ h]) (force simp: script_armed_def)
  qed (use assms that in \<open>simp add: script_timer_poll_def\<close>)
  show "r = None \<Longrightarrow> w' = w"
    using assms by (auto simp: script_timer_poll_def split: list.splits)
qed

lemma open_os_timer_law: "timer_law open_os script_armed"
  unfolding timer_law_def
proof (intro conjI allI impI, goal_cases)
  case 1
  show ?case
    by unfold_locales (auto intro!: script_armed_cong dest: script_read_armed split: list.splits)
next
  case (2 w d i w' h)
  then show ?case using fresh_handle_fresh by auto
next
  case (3 w d i w' h)
  then have "w' = w\<lparr>sc_armed := (h, d, i) # sc_armed w\<rparr>" by auto
  then show ?case by (simp add: script_armed_def)
next
  case (4 w h)
  then show ?case by (force simp: script_armed_def)
next
  case (5 w w' i)
  then show ?case by (intro script_timer_poll_armed(1) [OF _ refl]) simp
next
  case (6 w w')
  with script_timer_poll_armed(2) [OF _ refl, of w w'] show ?case by simp
next
  case (7 w w' m)
  then show ?case by (auto intro!: script_armed_cong split: list.splits)
qed

section \<open>Properties\<close>

text \<open>
  C29. The discipline of the two timeouts. In every state the thread can be in, the pending timeouts
  are exactly those its context remembers: the one for the queue if \<^verbatim>\<open>queue_timeout\<close> is set, the one
  for announcements if \<^verbatim>\<open>udp_timeout\<close> is set, each at most once and with handles of their own. While
  a client is connected no announcement is pending. So a timeout that expires is always the one
  the handler resets, and cancelling never hits the other one.
\<close>

theorem timers_tracked:
  assumes "timer_law os armed" and "thread_run os k armed c"
  shows "armed (world c) =
      {(h, i). i = QUEUE_TIMEOUT_IDENT \<and> queue_timeout c = Some h \<or>
               i = UDP_TIMEOUT_IDENT \<and> udp_timeout c = Some h} \<and>
    (queue_timeout c \<noteq> None \<longrightarrow> queue_timeout c \<noteq> udp_timeout c) \<and>
    (connection c \<noteq> None \<longrightarrow> udp_timeout c = None)"
proof -
  have ok: "timers_ok armed c" by (rule thread_run_timers_ok [OF assms])
  have "remembered c = {(h, i). i = QUEUE_TIMEOUT_IDENT \<and> queue_timeout c = Some h \<or>
      i = UDP_TIMEOUT_IDENT \<and> udp_timeout c = Some h}"
    by (auto simp: remembered_def split: option.splits)
  with ok show ?thesis by (auto simp: timers_ok_def)
qed

text \<open>
  A run: the thread starts and announces itself, a client connects, and a payload arrives.
\<close>

lemma demo_run:
  "\<exists>c. thread_run open_os 3 script_armed c \<and> connection c = Some 7 \<and> queue_timeout c = Some 1 \<and>
     sc_armed (world c) = [(1, 1000, 42)]"
proof -
  let ?m = "\<lparr>world = idle_script, atomics = (\<lambda>_. False), next_cell = 1\<rparr>"
  obtain c where start: "tracer_thread_start open_os demo_cfg 0 True (\<lambda>_. 0) ?m = Ret c"
    and c: "udp_timeout c = Some 1" "sc_armed (world c) = [(1, 5000, 9001)]" "queue_timeout c = None"
      "connection c = None" "buffer_occupancy c = 0" "send_interval (app_cfg c) = 1000"
    by (simp add: tracer_thread_start_def tcp_init_open start_announcing_def register_source_def
        initial_context_def Let_def udp_init_def demo_cfg_def check_start_udp_timer_def fresh_handle_def)
  have "thread_run open_os 3 script_armed c"
    by (rule thread_run.Started [OF start]) (simp add: script_armed_def)
  then have run: "thread_run open_os 3 script_armed (c\<lparr>world := (world c)\<lparr>sc_accepts := [7],
      sc_chan := [Payload demo_element]\<rparr>, atomics := atomics c, next_cell := next_cell c\<rparr>)"
    by (rule thread_run.Elsewhere) (simp add: script_armed_def)
  obtain st c' where "event_handler open_os 3 [CON_NEW, CHAN] (c\<lparr>world := (world c)\<lparr>sc_accepts := [7],
      sc_chan := [Payload demo_element]\<rparr>, atomics := atomics c, next_cell := next_cell c\<rparr>) = Ret (st, c')"
    "connection c' = Some 7" "queue_timeout c' = Some 1" "sc_armed (world c') = [(1, 1000, 42)]"
    using c by (simp add: event_handler_def establish_connection_def channel_handler_def
        channel_data_handler_def ctx_append_def check_stop_udp_timer_def check_start_queue_timer_def
        store_def fresh_handle_def el_len_def demo_element_def demo_name_eq Let_def numeral_3_eq_3)
  with thread_run.Batch [OF run] show ?thesis by blast
qed

theorem timers_tracked_witness:
  "\<exists>c. thread_run open_os 3 script_armed c \<and> connection c = Some 7 \<and> udp_timeout c = None \<and>
     script_armed (world c) = {(1, QUEUE_TIMEOUT_IDENT)}"
proof -
  obtain c where c: "thread_run open_os 3 script_armed c" "connection c = Some 7" "queue_timeout c = Some 1"
    using demo_run by blast
  from timers_tracked [OF open_os_timer_law c(1)] c show ?thesis by (intro exI [of _ c]) auto
qed

end
