(* ===== verification/Spec2Isabelle.thy ===== *)
theory Spec2Isabelle
  imports Timer_Discipline
begin

text \<open>
  Tracy is a tracing library in Rust with a C interface. An application calls \<^verbatim>\<open>tracy_init\<close>,
  registers tracepoints and submits data to them; a thread spawned by \<^verbatim>\<open>tracy_init\<close> announces
  itself by UDP multicast, accepts one TCP client, lets it list, enable and disable tracepoints,
  and sends it the data submitted to the enabled ones. This development models the three Rust
  files \<^verbatim>\<open>src/src/lib.rs\<close>, \<^verbatim>\<open>src/src/tcp_handler.rs\<close> and \<^verbatim>\<open>src/src/udp_beacon.rs\<close> function by
  function, under the names of the source.

  \<^bold>\<open>How the parts interact.\<close> The application and the thread share a channel of messages and
  one atomic flag per tracepoint, plus one that says whether a client is connected.
  \<^verbatim>\<open>tracy_register\<close> creates a flag and sends it to the thread; \<^verbatim>\<open>tracy_submit\<close> reads the flags and
  sends a payload; \<^verbatim>\<open>tracy_finit\<close> sends the request to terminate. The thread waits for events of
  the channel, the timer, the listener and the connection, and handles them in batches.

  \<^bold>\<open>Theories.\<close>
  \<^item> \<open>Tracy_Prelude\<close>: machine integers, byte strings, outcomes of a computation (return, panic,
    loop out of fuel, undefined behaviour), shared lemmas and simp collections.
  \<^item> \<open>Wire_Bytes\<close>: \<^verbatim>\<open>to_be_bytes\<close>, \<^verbatim>\<open>from_be_bytes\<close>, and the locale \<open>record_codec\<close> of codecs for
    sequences of self-delimiting records.
  \<^item> \<open>Rust_Strings\<close>, \<open>Rust_Collections\<close>, \<open>Rust_IO\<close>: what the source uses of the standard library,
    namely UTF-8 and C strings, \<^verbatim>\<open>VecDeque\<close> (locale \<open>deque\<close>), \<^verbatim>\<open>HashMap\<close> with its unspecified order
    (locale \<open>string_map\<close>), \<^verbatim>\<open>BufReader\<close>, \<^verbatim>\<open>read_exact\<close> and \<^verbatim>\<open>write_all\<close>.
  \<^item> \<open>Tracer_Data\<close>: constants, messages and structs of \<^verbatim>\<open>lib.rs\<close>; the record \<open>os\<close> of the operations
    that belong to mio, mio-extras, the sockets of the standard library, the clock and
    \<^verbatim>\<open>SocketAddr::from_str\<close>; the locales \<open>io_frame\<close> and \<open>env_frame\<close> of environments that change the
    world along a given relation only, without and with the timer; the store of the atomic flags.
  \<^item> \<open>Scripted_Env\<close>: an executable environment, on which the properties are instantiated.
  \<^item> \<open>Tracer_Context\<close>: the methods of \<^verbatim>\<open>TracerContext\<close>.
  \<^item> \<open>Tcp_Wire\<close>, \<open>Tcp_Handler\<close>: \<^verbatim>\<open>tcp_handler.rs\<close>, its encodings and its operations. \<open>Tcp_Sending\<close>,
    \<open>Tcp_Receiving\<close>: their correctness. \<open>Tcp_Invariants\<close>: the locales \<open>conn_invariant\<close> and
    \<open>ctx_invariant\<close> of predicates that survive the primitive updates of receiving and of sending,
    and so all of it. \<open>Tcp_Progress\<close>: receiving ends on every finite input.
  \<^item> \<open>Udp_Beacon\<close>: \<^verbatim>\<open>udp_beacon.rs\<close>.
  \<^item> \<open>Tracer_Thread\<close>: \<^verbatim>\<open>tracer_thread_main\<close> and the event handlers; the locale \<open>thread_invariant\<close>
    extends \<open>ctx_invariant\<close> to batches of events, and \<open>frame_invariant\<close> is its form for predicates
    that do not speak of the timers. \<open>Thread_Properties\<close>: what the handlers do.
  \<^item> \<open>C_Api\<close>: the five exported functions and their helpers.
  \<^item> \<open>Tracer_System\<close>: application, channel and thread as one step relation, its reachable states
    and their invariant. \<open>Timer_Discipline\<close>: runs of the thread and their pending timeouts.

  \<^bold>\<open>Correspondence.\<close> A struct is a record with the fields of the source; \<^verbatim>\<open>poll\<close>, \<^verbatim>\<open>rec\<close> and
  \<^verbatim>\<open>timer\<close> of \<^verbatim>\<open>TracerContext\<close> and the sender of \<^verbatim>\<open>TracerNg\<close> are part of the world \<open>'w\<close> on which
  the operations of \<open>os\<close> act. An \<^verbatim>\<open>Arc<AtomicBool>\<close> is a cell of a store both sides refer to. A
  C string is the memory behind its pointer, \<open>None\<close> for NULL. Integers are words, and addition
  wraps as in a release build. \<^verbatim>\<open>usize\<close> has 64 bits; lengths of lists are natural numbers, so the sum of
  lengths in \<^verbatim>\<open>BufferElement::len\<close> and in the guard of \<^verbatim>\<open>send_trace_data\<close> does not wrap, as it cannot for
  objects in memory. On a target with 32 bits \<^verbatim>\<open>buffer_occupancy\<close> wraps earlier. Each \<^verbatim>\<open>unwrap\<close> and \<^verbatim>\<open>expect\<close> that can fail is a value of \<open>panic\<close>,
  each \<^verbatim>\<open>loop\<close> a recursion on fuel. One number \<open>k\<close> bounds the rounds of a handler and the retries
  of a single read or write; the theorems that say a function returns give a sufficient bound,
  e.g. twice the number of buffered elements plus two for \<^verbatim>\<open>send_trace_data\<close> on a socket that takes
  everything, and the bytes the peer can still send plus the length of the list reply for \<^verbatim>\<open>receive\<close>.

  \<^bold>\<open>Hypotheses about the environment.\<close> Nothing is assumed of \<open>os\<close> in general. \<open>chan_law\<close> says that
  the channel is a queue only its two ends touch, which describes it while the receiver exists;
  \<open>timer_law\<close> that arming, cancelling and expiry of timeouts are what they say; \<open>finite_input\<close> that a
  peer sends and interrupts only so much; \<open>stream_ended\<close> that a stream which has ended stays so;
  \<open>sink_law\<close> that a write reports how many bytes
  it has taken; \<open>accepts_all\<close> describes a client that takes what is written; \<open>sink_quiet\<close> says
  that the channel and the timers send nothing to the client. The scripted environment
  satisfies them, which the witnesses use.

  \<^bold>\<open>What is shown.\<close>
  \<^item> Data: what \<^verbatim>\<open>tracy_submit\<close> sends, exactly; that encoding and decoding are inverse; that a channel
    event, a flush and a shutdown deliver everything in order; the sizes of the frames.
  \<^item> Control: toggle requests and sessions of them; the list of tracepoints; the outcomes of a new
    client; what closing a connection turns off.
  \<^item> Invariants of the reachable states: the flag agrees with the connection, the registries of
    handle and thread agree up to messages in flight, all traffic respects the limits; the pending
    timeouts are the ones the context remembers.
  \<^item> Termination: sending ends on every socket and receiving on every finite input, and what a
    client can change on the way.
  \<^item> Faults: the runs in which the thread panics, loses a header, truncates a frame, executes
    requests after a violation, stops batching or stops announcing, each as a theorem.

  \<^bold>\<open>Granularity.\<close> A call of the interface and a batch of events are single steps of the system. A
  batch may consist of one event, so calls fall between any two events, but a call that
  overlaps the handling of one event is taken to happen before or after it. Starting the thread
  is one step with \<^verbatim>\<open>tracy_init\<close>.

  \<^bold>\<open>What is not modelled.\<close> Output on stdout and stderr; capacities of containers; memory
  exhaustion; the dropping of the context when the thread panics or ends; addresses of peers;
  the C wrapper \<^verbatim>\<open>tracy_submit_printf\<close> of \<^verbatim>\<open>tracy.h\<close>, the Python client, the Wireshark script, the
  examples and the empty library.

  \<^bold>\<open>Further work.\<close> A finer interleaving in which calls fall between the steps of a batch; the
  parser of socket addresses; the requests of the Python client against the header parser.
\<close>

section \<open>Properties of the whole system\<close>

text \<open>
  C3. The flag the application reads. In every reachable state, whatever the interleaving of calls,
  events and changes outside, the flag \<^verbatim>\<open>client_connected\<close> of the handle is on exactly if the
  tracer thread has a connection.
\<close>

theorem flag_tracks_connection:
  assumes "chan_law os chan" and "reachable os k chan s"
  shows "atomics (sys_ctx s) (ng_client_connected (sys_handle s)) \<longleftrightarrow> connection (sys_ctx s) \<noteq> None"
  using reachable_sys_ok [OF assms] by (simp add: sys_ok_def link_ok_def handle_ok_def)

theorem flag_tracks_connection_witness:
  "atomics demo_connected (ng_client_connected demo_handle) \<longleftrightarrow> connection demo_connected \<noteq> None"
  using flag_tracks_connection [OF open_os_chan_law demo_was_connected] by simp

text \<open>
  C4. The two registries. In every reachable state each tracepoint of the handle has a normalised
  name and a cell of its own, different from the cell of the flag. The thread knows a part of
  them, with the same cells, and every other one is in the channel; once the channel holds no
  registration, both tables are the same map.
\<close>

theorem registries_agree:
  assumes "chan_law os chan" and "reachable os k chan s"
  shows "(\<forall>x \<in> dom (hm_get (ng_tracepoints (sys_handle s))). name_ok x) \<and>
    inj_on (hm_get (ng_tracepoints (sys_handle s))) (dom (hm_get (ng_tracepoints (sys_handle s)))) \<and>
    ng_client_connected (sys_handle s) \<notin> ran (hm_get (ng_tracepoints (sys_handle s))) \<and>
    hm_get (tracepoints (sys_ctx s)) \<subseteq>\<^sub>m hm_get (ng_tracepoints (sys_handle s)) \<and>
    (\<forall>x a. hm_get (ng_tracepoints (sys_handle s)) x = Some a \<longrightarrow>
      hm_get (tracepoints (sys_ctx s)) x = Some a \<or>
      NewTracepoint \<lparr>tp_name = x, tp_state = a\<rparr> \<in> set (chan (world (sys_ctx s)))) \<and>
    ((\<forall>t. NewTracepoint t \<notin> set (chan (world (sys_ctx s)))) \<longrightarrow>
      hm_get (tracepoints (sys_ctx s)) = hm_get (ng_tracepoints (sys_handle s)))"
proof -
  let ?g = "hm_get (ng_tracepoints (sys_handle s))" and ?t = "hm_get (tracepoints (sys_ctx s))"
  have ok: "registry_ok chan (sys_handle s) (sys_ctx s)" "handle_ok (sys_handle s) (sys_ctx s)"
    using reachable_sys_ok [OF assms] by (simp_all add: sys_ok_def link_ok_def)
  have pending: "?t x = Some a \<or> NewTracepoint \<lparr>tp_name = x, tp_state = a\<rparr> \<in> set (chan (world (sys_ctx s)))"
    if x: "?g x = Some a" for x a
  proof (cases "?t x")
    case (Some b)
    with ok(1) x show ?thesis by (auto simp: registry_ok_def map_le_def dom_def)
  next
    case None
    with ok(1) x obtain t where t: "NewTracepoint t \<in> set (chan (world (sys_ctx s)))" "tp_name t = x"
      by (auto simp: registry_ok_def dom_def)
    with ok(1) x have "tp_state t = a" by (auto simp: registry_ok_def)
    with t have "t = \<lparr>tp_name = x, tp_state = a\<rparr>" by (cases t) simp
    with t show ?thesis by simp
  qed
  have "?t = ?g" if "\<forall>t. NewTracepoint t \<notin> set (chan (world (sys_ctx s)))"
  proof (rule map_le_antisym)
    show "?t \<subseteq>\<^sub>m ?g" using ok(1) by (simp add: registry_ok_def)
    show "?g \<subseteq>\<^sub>m ?t" using ok(1) that by (auto simp: registry_ok_def map_le_def)
  qed
  with ok pending show ?thesis by (simp add: registry_ok_def handle_ok_def)
qed

theorem registries_agree_witness:
  "hm_get (tracepoints demo_connected) = hm_get (ng_tracepoints demo_handle)"
  using registries_agree [OF open_os_chan_law demo_was_connected]
  by (simp add: demo_connected_def)

text \<open>
  C12. What travels. In every reachable state each element that is buffered or in flight has an
  ASCII name in lower case of at most 32 bytes and between 1 and 2048 bytes of data, so that its
  length fields fit 16 bits and it fits into a frame; each tracepoint in flight has such a name.
\<close>

theorem traffic_bounded:
  assumes "chan_law os chan" and "reachable os k chan s"
    and "e \<in> set (contents (buffer (sys_ctx s))) \<union> set (payloads (chan (world (sys_ctx s))))"
  shows "is_ascii (el_tracepoint e) \<and> to_lowercase (el_tracepoint e) = el_tracepoint e \<and>
    length (el_tracepoint e) \<le> 32 \<and> 1 \<le> length (el_data e) \<and> length (el_data e) \<le> 2048 \<and>
    el_len e + HEADER_LEN < QUEUE_TOTAL_SIZE"
proof -
  have "buffer_ok (sys_ctx s)" "list_all message_ok (chan (world (sys_ctx s)))"
    using reachable_sys_ok [OF assms(1,2)] by (simp_all add: sys_ok_def traffic_ok_def)
  then have "element_ok e"
    using assms(3) list_all_payloads [of "chan (world (sys_ctx s))"]
    by (auto simp: buffer_ok_def list_all_iff)
  with element_ok_len [of e] show ?thesis by (simp add: element_ok_def name_ok_def Suc_le_eq)
qed

theorem traffic_bounded_witness:
  "is_ascii (el_tracepoint demo_payload) \<and>
    to_lowercase (el_tracepoint demo_payload) = el_tracepoint demo_payload \<and>
    length (el_tracepoint demo_payload) \<le> 32 \<and> 1 \<le> length (el_data demo_payload) \<and>
    length (el_data demo_payload) \<le> 2048 \<and> el_len demo_payload + HEADER_LEN < QUEUE_TOTAL_SIZE"
  by (rule traffic_bounded [OF open_os_chan_law demo_was_submitted]) (simp add: demo_submitted_def)

text \<open>
  C16. Without a client nothing is traced: in a reachable state without a connection,
  \<^verbatim>\<open>tracy_submit\<close> changes nothing, whatever its arguments.
\<close>

theorem submit_without_client:
  assumes "chan_law os chan" and "reachable os k chan s" and "connection (sys_ctx s) = None"
    and "tracy_submit os (Some (sys_handle s)) p d n (sys_ctx s) = Ret c"
  shows "c = sys_ctx s"
  using assms(4)
proof (cases rule: tracy_submit_RetE)
  case Ignored
  then show ?thesis .
next
  case (Sent e w now)
  with reachable_sys_ok [OF assms(1,2)] assms(3) show ?thesis
    by (simp add: sys_ok_def link_ok_def handle_ok_def)
qed

theorem submit_without_client_witness:
  "tracy_submit open_os (Some demo_handle) (c_string demo_name []) (Some [1]) 1 demo_registered =
     Ret demo_registered"
proof -
  have "connection demo_registered = None" "\<not> atomics demo_registered 0"
    by (simp_all add: demo_registered_def demo_start_def initial_context_def demo_machine_def new_cell_def)
  moreover then obtain c where c: "tracy_submit open_os (Some demo_handle) (c_string demo_name [])
      (Some [1]) 1 demo_registered = Ret c"
    by (simp add: tracy_submit_def demo_handle_def)
  ultimately show ?thesis
    using submit_without_client [OF open_os_chan_law demo_was_registered] by simp
qed

text \<open>
  C17. Flushing from any reachable state. Whatever happened before, if a client is connected whose
  socket takes what is written, sending the buffer returns, leaves it empty, and puts exactly
  the buffered elements on the wire, in order.
\<close>

theorem reachable_flush:
  assumes "chan_law os chan" and "reachable os k chan s" and "accepts_all os sink"
    and "connection (sys_ctx s) \<noteq> None"
    and "2 * length (contents (buffer (sys_ctx s))) + 2 \<le> n"
  shows "\<exists>c' bs. send_trace_data os n (sys_ctx s) = Ret c' \<and> contents (buffer c') = [] \<and>
    sink (world c') = sink (world (sys_ctx s)) @ bs \<and>
    decode_push bs = Some (map package_of (contents (buffer (sys_ctx s))))"
proof -
  have ok: "list_all element_ok (contents (buffer (sys_ctx s)))"
    using reachable_sys_ok [OF assms(1,2)] by (simp add: sys_ok_def traffic_ok_def buffer_ok_def)
  obtain c' groups where c': "send_trace_data os n (sys_ctx s) = Ret c'" "contents (buffer c') = []"
    and groups: "concat groups = contents (buffer (sys_ctx s))" "list_all group_ok groups"
    "sink (world c') = sink (world (sys_ctx s)) @ concat (map push_frame groups)"
    using send_trace_data_sends [OF assms(3,4) ok assms(5)] by (auto simp: sends_def)
  have "decode_push (concat (map push_frame groups)) = Some (map package_of (concat groups))"
    by (rule decode_push_groups [OF groups(2)]) (use ok groups(1) in simp)
  with c' groups show ?thesis by auto
qed

theorem reachable_flush_witness:
  "\<exists>c' bs. send_trace_data open_os 4 demo_buffered = Ret c' \<and> contents (buffer c') = [] \<and>
    sc_sent (world c') = bs \<and> decode_push bs = Some [package_of demo_payload]"
  using reachable_flush [OF open_os_chan_law demo_was_buffered open_os_accepts_all, of 4] by simp

text \<open>
  C14. A client that leaves while data for it is in flight takes the tracer thread with it. In every
  reachable state with a connection, when the client ends the stream and the channel holds a
  payload, reading closes the connection and keeps the buffer. The next channel event either
  panics at once or buffers the payloads behind what was left and starts the queue timer; then
  the expiry of that timer is a panic, unless a new client has connected in between.
\<close>

theorem leaving_client_ends_thread:
  assumes law: "chan_law os chan" and r: "reachable os k chan s"
    and conn: "connection (sys_ctx s) = Some f"
    and clone: "os_try_clone os (world (sys_ctx s)) f = (w0, Some t)"
    and eof: "os_read os w0 t REC_BUF_SZ = (w1, Inr [])"
    and ms: "chan (world (sys_ctx s)) = ms" "payloads ms \<noteq> []" "TerminateMsg \<notin> set ms"
    and fuel: "length (contents (buffer (sys_ctx s))) + length ms < k"
  shows "\<exists>d. event_handler os k [CON_DATA] (sys_ctx s) = Ret (Normal, d) \<and> connection d = None \<and>
    buffer d = buffer (sys_ctx s) \<and> chan (world d) = ms \<and>
    (event_handler os k [CHAN] d = Panic ConnectionIsNone \<or>
     (\<exists>st e. event_handler os k [CHAN] d = Ret (st, e) \<and> connection e = None \<and>
       contents (buffer e) = contents (buffer (sys_ctx s)) @ payloads ms \<and> queue_timeout e \<noteq> None \<and>
       (\<forall>w w'. os_timer_poll os w = (w', Some QUEUE_TIMEOUT_IDENT) \<longrightarrow>
         event_handler os k [TIMER] (e\<lparr>world := w\<rparr>) = Panic ConnectionIsNone)))"
proof -
  have ok: "buffer_ok (sys_ctx s)" "list_all message_ok ms"
    using reachable_sys_ok [OF law r] ms(1) by (simp_all add: sys_ok_def traffic_ok_def)
  obtain c' where c': "close_and_clean_connection os ((sys_ctx s)\<lparr>world := w1\<rparr>) = Ret c'"
    using close_returns [of "(sys_ctx s)\<lparr>world := w1\<rparr>" os] conn by auto
  define d where "d = c'\<lparr>world := os_drop os (world c') t\<rparr>"
  have recv: "receive os k (sys_ctx s) = Ret d"
    using receive_eof [OF conn clone eof, of k] c' fuel by (simp add: d_def)
  have d: "connection d = None" "buffer d = buffer (sys_ctx s)"
    using close_effect(1,5) [OF c'] by (simp_all add: d_def)
  have "chan (world d) = ms"
    using conn_invariant.receive_I [OF ctx_invariant.axioms(1) [OF chan_kept [OF law]] ms(1) recv] .
  note d = d this
  have dok: "buffer_ok d" using ok(1) d(2) by (simp add: buffer_ok_def)
  have "length ms < k" using fuel by simp
  from channel_loop_unconnected [OF law d(3) ms(3) ok(2) dok d(1) this, of k Normal] fuel d(2)
  consider (Now) "channel_handler os k d = Panic ConnectionIsNone"
    | (Later) st e where "channel_handler os k d = Ret (st, e)" "st \<noteq> Terminate" "connection e = None"
      "buffer_ok e" "contents (buffer e) = contents (buffer (sys_ctx s)) @ payloads ms" "queue_timeout e \<noteq> None"
    using ms(2) by (auto simp: channel_handler_def)
  then have "event_handler os k [CHAN] d = Panic ConnectionIsNone \<or>
     (\<exists>st e. event_handler os k [CHAN] d = Ret (st, e) \<and> connection e = None \<and>
       contents (buffer e) = contents (buffer (sys_ctx s)) @ payloads ms \<and> queue_timeout e \<noteq> None \<and>
       (\<forall>w w'. os_timer_poll os w = (w', Some QUEUE_TIMEOUT_IDENT) \<longrightarrow>
         event_handler os k [TIMER] (e\<lparr>world := w\<rparr>) = Panic ConnectionIsNone))"
  proof cases
    case Now
    then show ?thesis by (simp add: event_handler_def)
  next
    case Later
    have "length (contents (buffer e)) < k" "contents (buffer e) \<noteq> []"
      using Later(5) fuel ms(2) length_payloads [of ms] by simp_all
    then have "timer_handler os k (e\<lparr>world := w\<rparr>) = Panic ConnectionIsNone"
      if "os_timer_poll os w = (w', Some QUEUE_TIMEOUT_IDENT)" for w w'
      by (intro queue_timeout_panics [OF Later(3,4) _ _ that])
    with Later show ?thesis by (auto simp: event_handler_def)
  qed
  with recv d show ?thesis by (intro exI [of _ d]) (simp add: event_handler_def)
qed

text \<open>A client enables a tracepoint, the application submits one byte, and the client leaves.\<close>

theorem leaving_client_ends_thread_witness:
  "\<exists>d st e. event_handler open_os 3 [CON_DATA] (demo_submitted\<lparr>world :=
        idle_script\<lparr>sc_chan := [Payload demo_payload], sc_reads := [Inr []]\<rparr>\<rparr>) = Ret (Normal, d) \<and>
    event_handler open_os 3 [CHAN] d = Ret (st, e) \<and>
    event_handler open_os 3 [TIMER] (e\<lparr>world := (world e)\<lparr>sc_elapsed := 1000\<rparr>\<rparr>) = Panic ConnectionIsNone"
proof -
  let ?w = "idle_script\<lparr>sc_chan := [Payload demo_payload], sc_reads := [Inr []]\<rparr>"
  let ?w1 = "idle_script\<lparr>sc_chan := [Payload demo_payload], sc_reads := []\<rparr>"
  let ?s = "\<lparr>sys_handle = demo_handle, sys_live = True, sys_running = True,
      sys_ctx = demo_submitted\<lparr>world := ?w\<rparr>\<rparr>"
  have s: "reachable open_os 3 sc_chan ?s"
    using reachable.Step [OF demo_was_submitted tracer_step.Outside [of sc_chan ?w]]
    by (simp add: demo_submitted_def)
  have conn: "connection (sys_ctx ?s) = Some 7" and buf: "contents (buffer (sys_ctx ?s)) = []"
    and occ: "buffer_occupancy (sys_ctx ?s) = 0" and cfg: "send_interval (app_cfg (sys_ctx ?s)) = 1000"
    by (simp_all add: demo_submitted_def demo_enabled_def)
      (simp add: demo_connected_def demo_registered_def demo_start_def initial_context_def new_cell_def
        send_to_tracer_def)
  obtain d where d: "event_handler open_os 3 [CON_DATA] (sys_ctx ?s) = Ret (Normal, d)"
    and later: "\<And>st e w w'. event_handler open_os 3 [CHAN] d = Ret (st, e) \<Longrightarrow>
      os_timer_poll open_os w = (w', Some QUEUE_TIMEOUT_IDENT) \<Longrightarrow>
      event_handler open_os 3 [TIMER] (e\<lparr>world := w\<rparr>) = Panic ConnectionIsNone"
    using leaving_client_ends_thread [OF open_os_chan_law s conn, of ?w 7 ?w1 "[Payload demo_payload]"] buf
    by fastforce
  obtain d0 where d0: "close_and_clean_connection open_os ((sys_ctx ?s)\<lparr>world := ?w1\<rparr>) = Ret d0"
    using close_returns [of "(sys_ctx ?s)\<lparr>world := ?w1\<rparr>" open_os] conn by auto
  have "receive open_os 3 (sys_ctx ?s) = Ret d0"
    using receive_eof [OF conn, of open_os ?w 7 ?w1 3] d0 by simp
  with d have [simp]: "d0 = d" by (simp add: event_handler_def)
  obtain X where w: "world d = ?w1\<lparr>sc_armed := X\<rparr>"
    using script_close_world [OF d0 [unfolded close_open_os]] by auto
  note eff = close_effect [OF d0, simplified]
  let ?d = "d\<lparr>world := (world d)\<lparr>sc_chan := []\<rparr>\<rparr>"
  let ?e = "check_start_queue_timer open_os (ctx_append ?d demo_payload)"
  have "channel_data_handler open_os 3 ?d demo_payload = Ret ?e"
    using eff(6) occ by (simp add: channel_data_handler_def Let_def ctx_append_def el_len_def
        demo_payload_def demo_name_eq)
  moreover have we: "world ?e = ?w1\<lparr>sc_chan := [], sc_armed := (fresh_handle (world ?d), 1000, 42) # X\<rparr>"
    using eff(2,7) cfg w by (simp add: check_start_queue_timer_def ctx_append_def)
  ultimately have e: "event_handler open_os 3 [CHAN] d = Ret (DataProcessed, ?e)"
    using w by (simp add: event_handler_def channel_handler_def numeral_3_eq_3)
  obtain w' where "os_timer_poll open_os ((world ?e)\<lparr>sc_elapsed := 1000\<rparr>) = (w', Some QUEUE_TIMEOUT_IDENT)"
    unfolding we by (simp add: script_timer_poll_def)
  from later [OF e this] d e show ?thesis by auto
qed

end
